theory Spec2Isabelle
  imports Complex_Main
begin

section \<open>The image loader of src/zarrLoader.ts\<close>

text \<open>
  The class \<^verbatim>\<open>ZarrLoader\<close> sits between a tile or raster request and a chunked array
  store. This theory embeds its constructor, its accessors and its methods as HOL
  functions. Exceptions and rejected promises are values of a sum type, the object is a
  record that a method returns updated, and the store and the helpers of
  \<^verbatim>\<open>./utils\<close> (which are not part of the file) are parameters.
\<close>

subsection \<open>JavaScript arrays\<close>

text \<open>
  An entry of a chunk key: a number, \<^verbatim>\<open>null\<close> (the whole axis), or the hole that an
  assignment past the end of an array leaves behind. Numbers are modelled as integers.
\<close>

datatype slot = Num int | Null | Empty

text \<open>
  \<^verbatim>\<open>a[i]\<close>: the element at an index inside the array, \<^verbatim>\<open>undefined\<close> (here \<open>None\<close>)
  at any other index.
\<close>

definition js_index :: "'a list \<Rightarrow> int \<Rightarrow> 'a option" where
  "js_index a i = (if 0 \<le> i \<and> nat i < length a then Some (a ! nat i) else None)"

text \<open>
  \<^verbatim>\<open>a[i] = v\<close>: inside the array the element is replaced; past the end the array grows,
  with holes up to the new element; a negative index names a property of the object and
  leaves the length and the elements as they are. The model of an array is the list of
  its elements, so the last case returns the list unchanged.
\<close>

definition js_assign :: "slot list \<Rightarrow> int \<Rightarrow> slot \<Rightarrow> slot list" where
  "js_assign a i v =
     (if i < 0 then a
      else if nat i < length a then a[nat i := v]
      else a @ replicate (nat i - length a) Empty @ [v])"

subsection \<open>Typed arrays\<close>

text \<open>
  A \<^verbatim>\<open>TypedArray\<close> is a window on an underlying buffer: the buffer, the position of
  the first element of the window and the number of elements (positions are counted in
  elements).
\<close>

record typed_array =
  buffer :: "int list"
  byteOffset :: nat
  len :: nat

text \<open>The positions of the underlying buffer a typed array covers.\<close>

definition positions :: "typed_array \<Rightarrow> nat set" where
  "positions t = {byteOffset t ..< byteOffset t + len t}"

text \<open>
  The conversion of a number to an integer that \<^verbatim>\<open>subarray\<close> applies to its arguments:
  the fraction is dropped, towards zero.
\<close>

definition toInteger :: "rat \<Rightarrow> int" where
  "toInteger q = (if q < 0 then \<lceil>q\<rceil> else \<lfloor>q\<rfloor>)"

text \<open>
  An index of \<^verbatim>\<open>subarray\<close> relative to a window of \<open>n\<close> elements: a negative index
  counts from the end, and the result is clamped to the window.
\<close>

definition relativeIndex :: "nat \<Rightarrow> rat \<Rightarrow> nat" where
  "relativeIndex n q =
     (let r = toInteger q
      in if r < 0 then nat (max (int n + r) 0) else nat (min r (int n)))"

text \<open>
  \<^verbatim>\<open>t.subarray(begin, end)\<close>: a new window on the same buffer, no element is copied.
\<close>

definition subarray :: "typed_array \<Rightarrow> rat \<Rightarrow> rat \<Rightarrow> typed_array" where
  "subarray t b e =
     (let beginIndex = relativeIndex (len t) b;
          endIndex = relativeIndex (len t) e
      in \<lparr> buffer = buffer t,
           byteOffset = byteOffset t + beginIndex,
           len = endIndex - beginIndex \<rparr>)"

subsection \<open>Errors\<close>

text \<open>
  The class of an error object, as far as the source tells classes apart: the comment of
  line 136 names \<^verbatim>\<open>BoundCheckError\<close>, the class of the error with which the store rejects
  a read outside the bounds of an array; every other class is \<open>OtherError\<close>.
\<close>

datatype error_class = BoundCheckError | OtherError

text \<open>
  An error object of JavaScript: the class it is an instance of and its message.
  \<^verbatim>\<open>onTileError\<close> looks at the message and at nothing else.
\<close>

record js_error =
  instanceOf :: error_class
  message :: string

text \<open>
  What a call of the loader can throw or reject with. The first six are the
  \<^verbatim>\<open>throw Error(...)\<close> statements of the file, in the order of the source (lines 41, 56,
  158, 167, 176 and 182); \<open>TypeError\<close> is the error of the runtime for a property of
  \<^verbatim>\<open>undefined\<close> or a call of something that is no function; \<open>Raised\<close> is an error
  of a collaborator (the store, \<^verbatim>\<open>normalizeChannelSelection\<close>) passing through.
\<close>

datatype error =
    NotDecreasing
  | DimensionMismatch
  | NamedSelection
  | MultipleSelections
  | ShapeMismatch
  | ChunkSelection
  | TypeError
  | Raised js_error

text \<open>
  The specification files the six \<^verbatim>\<open>throw Error(...)\<close> statements under the name
  \<open>ConfigurationError\<close>.
\<close>

fun ConfigurationError :: "error \<Rightarrow> bool" where
  "ConfigurationError NotDecreasing = True"
| "ConfigurationError DimensionMismatch = True"
| "ConfigurationError NamedSelection = True"
| "ConfigurationError MultipleSelections = True"
| "ConfigurationError ShapeMismatch = True"
| "ConfigurationError ChunkSelection = True"
| "ConfigurationError TypeError = False"
| "ConfigurationError (Raised e) = False"

subsection \<open>The store\<close>

text \<open>
  A \<^verbatim>\<open>ZarrArray\<close> as the loader uses it: the metadata and the two reads. A read is a
  function of the key; it yields the \<^verbatim>\<open>data\<close> of the raw array it resolves with, or
  the error it rejects with.
\<close>

record zarr_array =
  shape :: "int list"
  chunks :: "int list"
  dtype :: string
  getRawChunk :: "slot list \<Rightarrow> js_error + typed_array"
  getRaw :: "slot list \<Rightarrow> js_error + typed_array"

text \<open>
  The field \<^verbatim>\<open>_data\<close>: one array or a list of arrays. The constructor fails on the
  empty list (see \<open>ZarrLoader\<close> below), so the list of a loader has a first element.
\<close>

datatype zarr_data = Single zarr_array | Pyramid zarr_array "zarr_array list"

text \<open>
  What \<^verbatim>\<open>_getSource\<close> can return at run time, whatever its declared type says: an
  array, the whole list of arrays, or \<^verbatim>\<open>undefined\<close>.
\<close>

datatype source = Arr zarr_array | Arrs "zarr_array list" | Undef

subsection \<open>The loader\<close>

record 'd loader =
  type' :: string
  isRgb :: bool
  scale :: rat
  translate :: "rat list"
  dimensions :: "'d list option"
  loader_dtype :: string
  tileSize :: "int option"
  numLevels :: nat
  xIndex :: int
  yIndex :: int
  data :: zarr_data
  channelSelections :: "int list list"

text \<open>
  The body of the constructor from line 49 on, once \<open>base\<close> is known. \<open>guessRgb\<close> is
  the function of \<^verbatim>\<open>./utils\<close>. An absent argument is \<open>None\<close>; an absent and a false
  \<^verbatim>\<open>isRgb\<close> both fail the test of line 53, and a list of labels passes the test of
  line 54 even when it is empty.
\<close>

definition construct ::
  "(int list \<Rightarrow> bool) \<Rightarrow> zarr_data \<Rightarrow> zarr_array \<Rightarrow> nat \<Rightarrow> 'd list option \<Rightarrow> bool option
     \<Rightarrow> rat option \<Rightarrow> rat list option \<Rightarrow> error + 'd loader" where
  "construct guessRgb d base n dims rgb sc tr =
     (let rgb' = (case rgb of
                    Some True \<Rightarrow> True
                  | Some False \<Rightarrow> guessRgb (shape base)
                  | None \<Rightarrow> guessRgb (shape base));
          rank = int (length (shape base))
      in if (case dims of Some ds \<Rightarrow> length ds \<noteq> length (shape base) | None \<Rightarrow> False)
         then Inl DimensionMismatch
         else Inr \<lparr> type' = ''zarr'', isRgb = rgb',
                    scale = (case sc of None \<Rightarrow> 1 | Some s \<Rightarrow> s),
                    translate = (case tr of None \<Rightarrow> [0, 0] | Some t \<Rightarrow> t),
                    dimensions = dims, loader_dtype = dtype base,
                    tileSize = js_index (chunks base) (if rgb' then rank - 2 else rank - 1),
                    numLevels = n,
                    xIndex = (if rgb' then rank - 2 else rank - 1),
                    yIndex = (if rgb' then rank - 3 else rank - 2),
                    data = d,
                    channelSelections = [replicate (length (shape base)) 0] \<rparr>)"

text \<open>
  The constructor. \<open>ensureDecreasing\<close> is the function of \<^verbatim>\<open>./utils\<close>. With an empty
  list that \<open>ensureDecreasing\<close> accepts, \<^verbatim>\<open>base\<close> is \<^verbatim>\<open>undefined\<close> and
  \<^verbatim>\<open>base.shape\<close> is a TypeError on every path.
\<close>

definition ZarrLoader ::
  "(int list \<Rightarrow> bool) \<Rightarrow> (int list list \<Rightarrow> bool) \<Rightarrow> zarr_array + zarr_array list
     \<Rightarrow> 'd list option \<Rightarrow> bool option \<Rightarrow> rat option \<Rightarrow> rat list option \<Rightarrow> error + 'd loader" where
  "ZarrLoader guessRgb ensureDecreasing d dims rgb sc tr =
     (case d of
        Inr arrs \<Rightarrow>
          if \<not> ensureDecreasing (map shape arrs) then Inl NotDecreasing
          else (case arrs of
                  [] \<Rightarrow> Inl TypeError
                | b # rest \<Rightarrow> construct guessRgb (Pyramid b rest) b (length arrs) dims rgb sc tr)
      | Inl a \<Rightarrow> construct guessRgb (Single a) a 1 dims rgb sc tr)"

definition isPyramid :: "'d loader \<Rightarrow> bool" where
  "isPyramid L = (case data L of Single a \<Rightarrow> False | Pyramid b rest \<Rightarrow> True)"

definition base :: "'d loader \<Rightarrow> zarr_array" where
  "base L = (case data L of Single a \<Rightarrow> a | Pyramid b rest \<Rightarrow> b)"

text \<open>
  \<^verbatim>\<open>_isUnchunkedMultiChannel\<close>: the comparison of \<^verbatim>\<open>undefined\<close> with 1 is false.
\<close>

definition isUnchunkedMultiChannel :: "'d loader \<Rightarrow> bool" where
  "isUnchunkedMultiChannel L =
     (if yIndex L - 1 \<ge> 0
      then (case js_index (chunks (base L)) (yIndex L - 1) of Some c \<Rightarrow> c > 1 | None \<Rightarrow> False)
      else False)"

text \<open>\<^verbatim>\<open>_getSource\<close>: \<open>z\<close> is \<open>None\<close> when the caller gave no number.\<close>

definition getSource :: "'d loader \<Rightarrow> int option \<Rightarrow> source" where
  "getSource L z =
     (case data L of
        Single a \<Rightarrow> Arr a
      | Pyramid b rest \<Rightarrow>
          (case z of
             Some i \<Rightarrow> (case js_index (b # rest) i of Some a \<Rightarrow> Arr a | None \<Rightarrow> Undef)
           | None \<Rightarrow> Arrs (b # rest)))"

subsection \<open>Splitting a packed chunk\<close>

text \<open>
  Modelled from the spec: \<^verbatim>\<open>range\<close> of \<^verbatim>\<open>./utils\<close> is not part of the source file; the
  specification has one view for each \<open>i\<close> from 0 up to the channel count.
\<close>

definition range' :: "int \<Rightarrow> int list" where
  "range' n = map int [0 ..< nat n]"

text \<open>
  \<^verbatim>\<open>_decodeChannels\<close>. The division is the division of numbers, not of integers, and
  \<open>subarray\<close> drops the fractions of its arguments. The numbers are modelled as
  rationals, which is what the floating point numbers of JavaScript give whenever the
  quotient and its multiples are exact, as they are when the chunk size divides the
  length. Both callers test \<open>isUnchunkedMultiChannel\<close> first, so the chunk size is a
  number above 1 when the function runs; for \<^verbatim>\<open>undefined\<close> there the model has no view,
  and for a chunk size of 0 \<open>range'\<close> is empty and the quotient is not used.
\<close>

definition decodeChannels :: "'d loader \<Rightarrow> typed_array \<Rightarrow> typed_array list" where
  "decodeChannels L chunkData =
     (case js_index (chunks (base L)) (yIndex L - 1) of
        None \<Rightarrow> []
      | Some channelChunkSize \<Rightarrow>
          (let offset = rat_of_nat (len chunkData) / rat_of_int channelChunkSize
           in map (\<lambda>i. subarray chunkData (offset * rat_of_int i) (offset * rat_of_int i + offset))
                (range' channelChunkSize)))"

subsection \<open>Reads\<close>

text \<open>
  \<^verbatim>\<open>Promise.all\<close> over the reads of one call: the results in the order of the
  requests when every read resolves, an error when one rejects. With several
  rejections JavaScript reports the one that happens first in time; the model reports
  the first in the order of the requests. The same function gives the result of a
  \<^verbatim>\<open>map\<close> whose callback can throw (line 152): the first throw ends it.
\<close>

fun collect :: "(error + 'a) list \<Rightarrow> error + 'a list" where
  "collect [] = Inr []"
| "collect (Inl e # rs) = Inl e"
| "collect (Inr v # rs) = (case collect rs of Inl e \<Rightarrow> Inl e | Inr vs \<Rightarrow> Inr (v # vs))"

text \<open>The key of a tile read for one selection (lines 96 to 98).\<close>

definition tileKey :: "'d loader \<Rightarrow> int \<Rightarrow> int \<Rightarrow> int list \<Rightarrow> slot list" where
  "tileKey L x y key =
     js_assign (js_assign (map Num key) (yIndex L) (Num y)) (xIndex L) (Num x)"

text \<open>
  The keys of one call of \<^verbatim>\<open>getTile\<close>: the callback of \<^verbatim>\<open>map\<close> runs for every
  selection, in order, before the call is suspended for the first time.
\<close>

definition tileRequests :: "'d loader \<Rightarrow> int \<Rightarrow> int \<Rightarrow> slot list list" where
  "tileRequests L x y = map (tileKey L x y) (channelSelections L)"

text \<open>
  One read of a chunk (line 99): the call of \<^verbatim>\<open>getRawChunk\<close> on anything but an
  array of the store is a TypeError inside the asynchronous callback.
\<close>

definition readChunk :: "source \<Rightarrow> slot list \<Rightarrow> error + typed_array" where
  "readChunk src k =
     (case src of
        Arr a \<Rightarrow> (case getRawChunk a k of Inl e \<Rightarrow> Inl (Raised e) | Inr t \<Rightarrow> Inr t)
      | Arrs as \<Rightarrow> Inl TypeError
      | Undef \<Rightarrow> Inl TypeError)"

text \<open>
  What both asynchronous methods do with the buffers once every read has resolved (lines
  103 to 107 and 128 to 131): \<^verbatim>\<open>data[0]\<close> of an empty list is \<^verbatim>\<open>undefined\<close>, whose
  length is a TypeError.
\<close>

definition decodeIfPacked :: "'d loader \<Rightarrow> typed_array list \<Rightarrow> error + typed_array list" where
  "decodeIfPacked L ds =
     (if isUnchunkedMultiChannel L
      then (case ds of [] \<Rightarrow> Inl TypeError | d0 # rest \<Rightarrow> Inr (decodeChannels L d0))
      else Inr ds)"

text \<open>
  The rest of \<^verbatim>\<open>getTile\<close> after line 101: it waits for the reads issued on \<open>src\<close>
  with the keys \<open>ks\<close> and goes on in the loader \<open>L\<close> of that later moment.
\<close>

definition finishTile :: "'d loader \<Rightarrow> source \<Rightarrow> slot list list \<Rightarrow> error + typed_array list" where
  "finishTile L src ks =
     (case collect (map (readChunk src) ks) of
        Inl e \<Rightarrow> Inl e
      | Inr ds \<Rightarrow> decodeIfPacked L ds)"

definition getTile :: "'d loader \<Rightarrow> int \<Rightarrow> int \<Rightarrow> int option \<Rightarrow> error + typed_array list" where
  "getTile L x y z = finishTile L (getSource L z) (tileRequests L x y)"

text \<open>The key of a raster read for one selection (lines 113 to 120).\<close>

definition rasterKey :: "'d loader \<Rightarrow> int list \<Rightarrow> slot list" where
  "rasterKey L key =
     (let chunkKey = js_assign (js_assign (map Num key) (yIndex L) Null) (xIndex L) Null
      in if isRgb L then js_assign chunkKey (int (length chunkKey) - 1) Null
         else if isUnchunkedMultiChannel L then js_assign chunkKey (yIndex L - 1) Null
         else chunkKey)"

definition rasterRequests :: "'d loader \<Rightarrow> slot list list" where
  "rasterRequests L = map (rasterKey L) (channelSelections L)"

definition readPlane :: "source \<Rightarrow> slot list \<Rightarrow> error + typed_array" where
  "readPlane src k =
     (case src of
        Arr a \<Rightarrow> (case getRaw a k of Inl e \<Rightarrow> Inl (Raised e) | Inr t \<Rightarrow> Inr t)
      | Arrs as \<Rightarrow> Inl TypeError
      | Undef \<Rightarrow> Inl TypeError)"

record raster_data =
  raster :: "typed_array list"
  width :: "int option"
  height :: "int option"

text \<open>
  The rest of \<^verbatim>\<open>getRaster\<close> after line 123. Once the reads have resolved,
  \<^verbatim>\<open>source.shape\<close> is read: on \<^verbatim>\<open>undefined\<close> that is a TypeError, and on a list of
  arrays \<^verbatim>\<open>shape\<close> is \<^verbatim>\<open>undefined\<close> and indexing it is a TypeError.
\<close>

definition finishRaster :: "'d loader \<Rightarrow> source \<Rightarrow> slot list list \<Rightarrow> error + raster_data" where
  "finishRaster L src ks =
     (case collect (map (readPlane src) ks) of
        Inl e \<Rightarrow> Inl e
      | Inr ds \<Rightarrow>
          (case src of
             Arr a \<Rightarrow>
               (case decodeIfPacked L ds of
                  Inl e \<Rightarrow> Inl e
                | Inr views \<Rightarrow>
                    Inr \<lparr> raster = views,
                          width = js_index (shape a) (xIndex L),
                          height = js_index (shape a) (yIndex L) \<rparr>)
           | Arrs as \<Rightarrow> Inl TypeError
           | Undef \<Rightarrow> Inl TypeError))"

definition getRaster :: "'d loader \<Rightarrow> int option \<Rightarrow> error + raster_data" where
  "getRaster L z = finishRaster L (getSource L z) (rasterRequests L)"

subsection \<open>The hook for a failed read\<close>

text \<open>\<^verbatim>\<open>s.includes(sub)\<close>: \<open>sub\<close> occurs in \<open>s\<close> as a run of consecutive characters.\<close>

fun includes' :: "string \<Rightarrow> string \<Rightarrow> bool" where
  "includes' [] sub = (sub = [])"
| "includes' (c # cs) sub = (take (length sub) (c # cs) = sub \<or> includes' cs sub)"

definition onTileError :: "js_error \<Rightarrow> js_error + unit" where
  "onTileError err = (if \<not> includes' (message err) ''RangeError'' then Inl err else Inr ())"

subsection \<open>Setting the channel selections\<close>

text \<open>
  An entry of a selection the caller passes: a number or a named selection, whose type
  \<open>'s\<close> is declared outside the file.
\<close>

datatype 's entry = Direct int | Named 's

text \<open>The argument of \<^verbatim>\<open>setChannelSelections\<close>: one selection or a list of selections.\<close>

datatype 's selections = One "'s entry list" | Many "'s entry list list"

text \<open>
  Lines 148 to 150: the argument is taken as a list of selections when its first element
  is an array. An empty list has no first element, so it is wrapped like one selection.
\<close>

fun wrap :: "'s selections \<Rightarrow> 's entry list list" where
  "wrap (One sel) = [sel]"
| "wrap (Many []) = [[]]"
| "wrap (Many (sel # sels)) = sel # sels"

fun isNumber :: "'s entry \<Rightarrow> bool" where
  "isNumber (Direct n) = True"
| "isNumber (Named s) = False"

fun asNumber :: "'s entry \<Rightarrow> int" where
  "asNumber (Direct n) = n"
| "asNumber (Named s) = 0"

text \<open>
  Lines 153 to 163 for one selection. \<open>normalizeChannelSelection\<close> is the function of
  \<^verbatim>\<open>./utils\<close>, which may throw. \<open>asNumber\<close> is applied to numbers only.
\<close>

definition normalizeOne ::
  "('d list \<Rightarrow> 's entry list \<Rightarrow> error + int list) \<Rightarrow> 'd loader \<Rightarrow> 's entry list
     \<Rightarrow> error + int list" where
  "normalizeOne normalizeChannelSelection L sel =
     (case dimensions L of
        None \<Rightarrow> if list_all isNumber sel then Inr (map asNumber sel) else Inl NamedSelection
      | Some ds \<Rightarrow> normalizeChannelSelection ds sel)"

text \<open>
  \<^verbatim>\<open>sel.some((key, i) => key !== 0 && this.base.chunks[i] > 1)\<close>
\<close>

definition chunkViolation :: "'d loader \<Rightarrow> int list \<Rightarrow> bool" where
  "chunkViolation L sel =
     list_ex (\<lambda>(i, key). key \<noteq> 0 \<and>
                (case js_index (chunks (base L)) (int i) of Some c \<Rightarrow> c > 1 | None \<Rightarrow> False))
       (enumerate 0 sel)"

text \<open>The loop of lines 174 to 184: \<open>None\<close> when it runs to its end.\<close>

fun validate :: "'d loader \<Rightarrow> int list list \<Rightarrow> error option" where
  "validate L [] = None"
| "validate L (sel # sels) =
     (if length sel \<noteq> length (shape (base L)) then Some ShapeMismatch
      else if chunkViolation L sel then Some ChunkSelection
      else validate L sels)"

text \<open>
  \<^verbatim>\<open>setChannelSelections\<close>: the error thrown, if any, and the loader after the call.
  The assignment of line 186 is the only one to a field of the loader.
\<close>

definition setChannelSelections ::
  "('d list \<Rightarrow> 's entry list \<Rightarrow> error + int list) \<Rightarrow> 'd loader \<Rightarrow> 's selections
     \<Rightarrow> error option \<times> 'd loader" where
  "setChannelSelections normalizeChannelSelection L input =
     (case collect (map (normalizeOne normalizeChannelSelection L) (wrap input)) of
        Inl e \<Rightarrow> (Some e, L)
      | Inr nextChannelSelections \<Rightarrow>
          if (isRgb L \<or> isUnchunkedMultiChannel L) \<and> length nextChannelSelections > 1
          then (Some MultipleSelections, L)
          else (case validate L nextChannelSelections of
                  Some e \<Rightarrow> (Some e, L)
                | None \<Rightarrow> (None, L\<lparr> channelSelections := nextChannelSelections \<rparr>)))"

subsection \<open>The states of a loader\<close>

text \<open>
  The loaders a program can hold: the constructor returns one, and a call of
  \<^verbatim>\<open>setChannelSelections\<close>, whether it throws or not, leaves one. The helper
  \<open>nrm\<close> stands for \<^verbatim>\<open>normalizeChannelSelection\<close>.
\<close>

inductive reachable ::
  "('d list \<Rightarrow> 's entry list \<Rightarrow> error + int list) \<Rightarrow> 'd loader \<Rightarrow> bool"
  for nrm :: "'d list \<Rightarrow> 's entry list \<Rightarrow> error + int list" where
  constructed:
    "ZarrLoader guessRgb ensureDecreasing d dims rgb sc tr = Inr L \<Longrightarrow> reachable nrm L"
| called:
    "reachable nrm L \<Longrightarrow> reachable nrm (snd (setChannelSelections nrm L input))"

text \<open>The positions of the two spatial axes, as the constructor computes them.\<close>

definition axes :: "'d loader \<Rightarrow> bool" where
  "axes L \<longleftrightarrow>
     xIndex L = (if isRgb L then int (length (shape (base L))) - 2
                 else int (length (shape (base L))) - 1)
   \<and> yIndex L = (if isRgb L then int (length (shape (base L))) - 3
                 else int (length (shape (base L))) - 2)"

subsection \<open>Calls that overlap\<close>

text \<open>
  JavaScript runs a piece of code up to its next \<^verbatim>\<open>await\<close> without interruption. A
  read therefore happens in two steps: the call, which resolves the source and issues
  every read of the store, and the continuation after \<^verbatim>\<open>Promise.all\<close>, which runs
  in whatever state the loader has by then. \<^verbatim>\<open>setChannelSelections\<close> has no
  \<^verbatim>\<open>await\<close> and is one step. An execution is a list of such steps.
\<close>

datatype request = Tile int int "int option" | Raster "int option"

datatype outcome = TileData "error + typed_array list" | RasterData "error + raster_data"

datatype 's event = Call request | Set "'s selections" | Resume nat

text \<open>A read between its two steps: the request, the source and the keys it issued.\<close>

record call =
  req :: request
  src :: source
  keys :: "slot list list"

record 'd system =
  current :: "'d loader"
  inflight :: "call list"
  completed :: "(call \<times> outcome) list"

definition issue :: "'d loader \<Rightarrow> request \<Rightarrow> call" where
  "issue L r =
     (case r of
        Tile x y z \<Rightarrow> \<lparr> req = r, src = getSource L z, keys = tileRequests L x y \<rparr>
      | Raster z \<Rightarrow> \<lparr> req = r, src = getSource L z, keys = rasterRequests L \<rparr>)"

definition resume :: "'d loader \<Rightarrow> call \<Rightarrow> outcome" where
  "resume L c =
     (case req c of
        Tile x y z \<Rightarrow> TileData (finishTile L (src c) (keys c))
      | Raster z \<Rightarrow> RasterData (finishRaster L (src c) (keys c)))"

text \<open>A read with nothing between its two steps.\<close>

definition perform :: "'d loader \<Rightarrow> request \<Rightarrow> outcome" where
  "perform L r =
     (case r of
        Tile x y z \<Rightarrow> TileData (getTile L x y z)
      | Raster z \<Rightarrow> RasterData (getRaster L z))"

text \<open>
  One step. \<open>Resume i\<close> is the continuation of the read at position \<open>i\<close> of the reads
  in flight; it does nothing when there is no such read.
\<close>

fun step ::
  "('d list \<Rightarrow> 's entry list \<Rightarrow> error + int list) \<Rightarrow> 'd system \<Rightarrow> 's event \<Rightarrow> 'd system" where
  "step nrm S (Call r) = S\<lparr> inflight := inflight S @ [issue (current S) r] \<rparr>"
| "step nrm S (Set input) = S\<lparr> current := snd (setChannelSelections nrm (current S) input) \<rparr>"
| "step nrm S (Resume i) =
     (if i < length (inflight S)
      then S\<lparr> inflight := take i (inflight S) @ drop (Suc i) (inflight S),
               completed := completed S @ [(inflight S ! i, resume (current S) (inflight S ! i))] \<rparr>
      else S)"

definition run ::
  "('d list \<Rightarrow> 's entry list \<Rightarrow> error + int list) \<Rightarrow> 'd loader \<Rightarrow> 's event list \<Rightarrow> 'd system" where
  "run nrm L evs = foldl (step nrm) \<lparr> current = L, inflight = [], completed = [] \<rparr> evs"

text \<open>The steps that are a call of \<^verbatim>\<open>setChannelSelections\<close>.\<close>

fun isSet :: "'s event \<Rightarrow> bool" where
  "isSet (Set input) = True"
| "isSet (Call r) = False"
| "isSet (Resume i) = False"

subsection \<open>Example stores and loaders\<close>

text \<open>A store whose reads answer with the key they were asked for.\<close>

fun slotCode :: "slot \<Rightarrow> int" where
  "slotCode (Num n) = n"
| "slotCode Null = - 1"
| "slotCode Empty = - 2"

definition echo :: "slot list \<Rightarrow> js_error + typed_array" where
  "echo k = Inr \<lparr> buffer = map slotCode k, byteOffset = 0, len = length k \<rparr>"

definition chunk12 :: typed_array where
  "chunk12 = \<lparr> buffer = [0, 1, 2, 3, 4, 5, 6, 7, 8, 9, 10, 11], byteOffset = 0, len = 12 \<rparr>"

definition chunk3 :: typed_array where
  "chunk3 = \<lparr> buffer = [7, 8, 9], byteOffset = 0, len = 3 \<rparr>"

text \<open>Three channels of 8 by 8 pixels, one channel and 4 by 4 pixels to a chunk.\<close>

definition plainArray :: zarr_array where
  "plainArray = \<lparr> shape = [3, 8, 8], chunks = [1, 4, 4], dtype = ''<u2'',
                   getRawChunk = echo, getRaw = echo \<rparr>"

text \<open>The next level of a pyramid over \<open>plainArray\<close>.\<close>

definition halfArray :: zarr_array where
  "halfArray = \<lparr> shape = [2, 4, 4], chunks = [1, 4, 4], dtype = ''<u2'',
                  getRawChunk = echo, getRaw = echo \<rparr>"

text \<open>Three channels of 2 by 2 pixels, all in one chunk.\<close>

definition packedArray :: zarr_array where
  "packedArray = \<lparr> shape = [3, 2, 2], chunks = [3, 2, 2], dtype = ''<u2'',
                    getRawChunk = (\<lambda>k. Inr chunk12), getRaw = (\<lambda>k. Inr chunk12) \<rparr>"

text \<open>Channels in pairs of two to a chunk, with a store that hands out three elements.\<close>

definition pairArray :: zarr_array where
  "pairArray = \<lparr> shape = [2, 1, 1], chunks = [2, 1, 1], dtype = ''<u2'',
                  getRawChunk = (\<lambda>k. Inr chunk3), getRaw = (\<lambda>k. Inr chunk3) \<rparr>"

text \<open>Two frames of 4 by 4 pixels with interleaved colours, both frames in one chunk.\<close>

definition framesArray :: zarr_array where
  "framesArray = \<lparr> shape = [2, 4, 4, 3], chunks = [2, 4, 4, 3], dtype = ''<u1'',
                    getRawChunk = echo, getRaw = echo \<rparr>"

text \<open>An array of the same shape whose store rejects every read.\<close>

definition closedArray :: zarr_array where
  "closedArray = \<lparr> shape = [3, 8, 8], chunks = [1, 4, 4], dtype = ''<u2'',
                    getRawChunk = (\<lambda>k. Inl \<lparr> instanceOf = OtherError, message = ''Not Found'' \<rparr>),
                    getRaw = (\<lambda>k. Inl \<lparr> instanceOf = OtherError, message = ''Not Found'' \<rparr>) \<rparr>"

text \<open>Stand-ins for the helpers of \<^verbatim>\<open>./utils\<close>.\<close>

definition neverRgb :: "int list \<Rightarrow> bool" where
  "neverRgb sh = False"

definition alwaysRgb :: "int list \<Rightarrow> bool" where
  "alwaysRgb sh = True"

definition anyOrder :: "int list list \<Rightarrow> bool" where
  "anyOrder shs = True"

definition numbersOnly :: "unit list \<Rightarrow> unit entry list \<Rightarrow> error + int list" where
  "numbersOnly ds sel = Inr (map asNumber sel)"

definition plainLoader :: "unit loader" where
  "plainLoader = \<lparr> type' = ''zarr'', isRgb = False, scale = 1, translate = [0, 0],
                    dimensions = None, loader_dtype = ''<u2'', tileSize = Some 4,
                    numLevels = 1, xIndex = 2, yIndex = 1, data = Single plainArray,
                    channelSelections = [[0, 0, 0]] \<rparr>"

definition pyramidLoader :: "unit loader" where
  "pyramidLoader = \<lparr> type' = ''zarr'', isRgb = False, scale = 1, translate = [0, 0],
                      dimensions = None, loader_dtype = ''<u2'', tileSize = Some 4,
                      numLevels = 2, xIndex = 2, yIndex = 1,
                      data = Pyramid plainArray [halfArray],
                      channelSelections = [[0, 0, 0]] \<rparr>"

definition packedLoader :: "unit loader" where
  "packedLoader = \<lparr> type' = ''zarr'', isRgb = False, scale = 1, translate = [0, 0],
                     dimensions = None, loader_dtype = ''<u2'', tileSize = Some 2,
                     numLevels = 1, xIndex = 2, yIndex = 1, data = Single packedArray,
                     channelSelections = [[0, 0, 0]] \<rparr>"

definition pairLoader :: "unit loader" where
  "pairLoader = \<lparr> type' = ''zarr'', isRgb = False, scale = 1, translate = [0, 0],
                   dimensions = None, loader_dtype = ''<u2'', tileSize = Some 1,
                   numLevels = 1, xIndex = 2, yIndex = 1, data = Single pairArray,
                   channelSelections = [[0, 0, 0]] \<rparr>"

definition framesLoader :: "unit loader" where
  "framesLoader = \<lparr> type' = ''zarr'', isRgb = True, scale = 1, translate = [0, 0],
                     dimensions = None, loader_dtype = ''<u1'', tileSize = Some 4,
                     numLevels = 1, xIndex = 2, yIndex = 1, data = Single framesArray,
                     channelSelections = [[0, 0, 0, 0]] \<rparr>"

definition closedLoader :: "unit loader" where
  "closedLoader = \<lparr> type' = ''zarr'', isRgb = False, scale = 1, translate = [0, 0],
                     dimensions = None, loader_dtype = ''<u2'', tileSize = Some 4,
                     numLevels = 1, xIndex = 2, yIndex = 1, data = Single closedArray,
                     channelSelections = [[0, 0, 0]] \<rparr>"

text \<open>The loader over three channels with the channels 2, 0 and 1 selected.\<close>

definition channelsLoader :: "unit loader" where
  "channelsLoader = plainLoader\<lparr> channelSelections := [[2, 0, 0], [0, 0, 0], [1, 0, 0]] \<rparr>"

section \<open>Properties\<close>

subsection \<open>Splitting a packed chunk\<close>

lemma relativeIndex_exact: "m \<le> n \<Longrightarrow> relativeIndex n (rat_of_nat m) = m"
  by (simp add: relativeIndex_def toInteger_def)

lemma subarray_exact:
  assumes "b \<le> e" and "e \<le> len t"
  shows "subarray t (rat_of_nat b) (rat_of_nat e)
           = \<lparr> buffer = buffer t, byteOffset = byteOffset t + b, len = e - b \<rparr>"
proof -
  from assms have "b \<le> len t" by simp
  then show ?thesis
    using assms by (simp add: subarray_def relativeIndex_exact Let_def)
qed

lemma decodeChannels_length:
  "js_index (chunks (base L)) (yIndex L - 1) = Some C \<Longrightarrow> length (decodeChannels L t) = nat C"
  by (simp add: decodeChannels_def range'_def Let_def)

lemma decodeChannels_nth:
  assumes c: "js_index (chunks (base L)) (yIndex L - 1) = Some C" and pos: "0 < C"
    and dv: "len t = nat C * k" and i: "i < nat C"
  shows "decodeChannels L t ! i
           = \<lparr> buffer = buffer t, byteOffset = byteOffset t + i * k, len = k \<rparr>"
proof -
  have off: "rat_of_nat (len t) / rat_of_int C = rat_of_nat k"
    using pos dv by (simp add: field_simps)
  have "(i + 1) * k \<le> nat C * k" using i by (intro mult_le_mono1) simp
  then have le2: "i * k + k \<le> len t" using dv by simp
  have "decodeChannels L t ! i
          = subarray t (rat_of_nat k * rat_of_int (int i)) (rat_of_nat k * rat_of_int (int i) + rat_of_nat k)"
    using i c by (simp add: decodeChannels_def range'_def off Let_def del: of_int_of_nat_eq)
  also have "\<dots> = subarray t (rat_of_nat (i * k)) (rat_of_nat (i * k + k))"
    by (simp add: mult.commute)
  also have "\<dots> = \<lparr> buffer = buffer t, byteOffset = byteOffset t + i * k, len = k \<rparr>"
    using subarray_exact [of "i * k" "i * k + k" t] le2 by simp
  finally show ?thesis .
qed

lemma blocks_cover: "(\<Union>i<c. {a + i * k ..< a + i * k + k}) = {a ..< a + c * (k::nat)}"
proof (induction c)
  case 0
  then show ?case by simp
next
  case (Suc c)
  have "(\<Union>i<Suc c. {a + i * k ..< a + i * k + k})
          = (\<Union>i<c. {a + i * k ..< a + i * k + k}) \<union> {a + c * k ..< a + c * k + k}"
    by (simp add: lessThan_Suc Un_commute)
  also have "\<dots> = {a ..< a + c * k} \<union> {a + c * k ..< a + c * k + k}"
    by (simp only: Suc.IH)
  also have "\<dots> = {a ..< a + Suc c * k}"
    by auto
  finally show ?case .
qed

lemma blocks_disjoint:
  assumes "i < (j::nat)"
  shows "{a + i * k ..< a + i * k + k} \<inter> {a + j * k ..< a + j * k + k} = {}"
proof -
  have "(i + 1) * k \<le> j * k" using assms by (intro mult_le_mono1) simp
  then have "a + i * k + k \<le> a + j * k" by simp
  then show ?thesis by auto
qed

text \<open>
  C3, as the code has it: when the channel count \<open>C\<close> of the axis before Y is positive
  and divides the length of the buffer, \<^verbatim>\<open>_decodeChannels\<close> returns \<open>C\<close> views on the same
  buffer, view \<open>i\<close> starts at \<open>i\<close> times the quotient and has the quotient as its length,
  two different views share no position, and together the views cover the buffer.
\<close>

theorem decodeChannels_views:
  assumes c: "js_index (chunks (base L)) (yIndex L - 1) = Some C" and pos: "0 < C"
    and dv: "nat C dvd len t"
  shows "length (decodeChannels L t) = nat C
       \<and> (\<forall>i<nat C. decodeChannels L t ! i
              = \<lparr> buffer = buffer t, byteOffset = byteOffset t + i * (len t div nat C),
                    len = len t div nat C \<rparr>)
       \<and> (\<forall>i<nat C. \<forall>j<nat C. i \<noteq> j \<longrightarrow>
              positions (decodeChannels L t ! i) \<inter> positions (decodeChannels L t ! j) = {})
       \<and> (\<Union>i<nat C. positions (decodeChannels L t ! i)) = positions t"
proof -
  define k where "k = len t div nat C"
  have lk: "len t = nat C * k" using dv by (simp add: k_def)
  have nth: "\<And>i. i < nat C \<Longrightarrow> decodeChannels L t ! i
                = \<lparr> buffer = buffer t, byteOffset = byteOffset t + i * k, len = k \<rparr>"
    using decodeChannels_nth [OF c pos lk] .
  have pos_i: "\<And>i. i < nat C \<Longrightarrow> positions (decodeChannels L t ! i)
                = {byteOffset t + i * k ..< byteOffset t + i * k + k}"
    by (simp add: nth positions_def)
  have disj: "\<And>i j. i < nat C \<Longrightarrow> j < nat C \<Longrightarrow> i \<noteq> j \<Longrightarrow>
      positions (decodeChannels L t ! i) \<inter> positions (decodeChannels L t ! j) = {}"
  proof -
    fix i j assume ij: "i < nat C" "j < nat C" "i \<noteq> j"
    then consider "i < j" | "j < i" by linarith
    then show "positions (decodeChannels L t ! i) \<inter> positions (decodeChannels L t ! j) = {}"
    proof cases
      case 1
      then show ?thesis using ij blocks_disjoint [of i j "byteOffset t" k] by (simp add: pos_i)
    next
      case 2
      then show ?thesis using ij blocks_disjoint [of j i "byteOffset t" k]
        by (simp add: pos_i Int_commute)
    qed
  qed
  have "(\<Union>i<nat C. positions (decodeChannels L t ! i))
          = (\<Union>i<nat C. {byteOffset t + i * k ..< byteOffset t + i * k + k})"
    using pos_i by simp
  also have "\<dots> = {byteOffset t ..< byteOffset t + nat C * k}"
    by (rule blocks_cover)
  also have "\<dots> = positions t"
    by (simp add: positions_def lk)
  finally have cover: "(\<Union>i<nat C. positions (decodeChannels L t ! i)) = positions t" .
  show ?thesis
    using decodeChannels_length [OF c] nth disj cover by (simp add: k_def)
qed

lemma list3: "length xs = 3 \<Longrightarrow> xs = [xs ! 0, xs ! 1, xs ! 2]"
  by (auto simp: numeral_3_eq_3 length_Suc_conv)

lemma packed_size: "js_index (chunks (base packedLoader)) (yIndex packedLoader - 1) = Some 3"
  by (simp add: packedLoader_def packedArray_def base_def js_index_def)

text \<open>The buffer of 12 elements with 3 channels: the views are [0,4), [4,8) and [8,12).\<close>

theorem decodeChannels_views_witness:
  "js_index (chunks (base packedLoader)) (yIndex packedLoader - 1) = Some 3
   \<and> nat 3 dvd len chunk12
   \<and> decodeChannels packedLoader chunk12 =
       [\<lparr> buffer = buffer chunk12, byteOffset = 0, len = 4 \<rparr>,
        \<lparr> buffer = buffer chunk12, byteOffset = 4, len = 4 \<rparr>,
        \<lparr> buffer = buffer chunk12, byteOffset = 8, len = 4 \<rparr>]
   \<and> positions (decodeChannels packedLoader chunk12 ! 0) = {0..<4}
   \<and> positions (decodeChannels packedLoader chunk12 ! 1) = {4..<8}
   \<and> positions (decodeChannels packedLoader chunk12 ! 2) = {8..<12}"
proof -
  have dv: "nat 3 dvd len chunk12" by (simp add: chunk12_def)
  have pos: "(0::int) < 3" by simp
  note v = decodeChannels_views [OF packed_size pos dv]
  have l: "length (decodeChannels packedLoader chunk12) = 3" using v by simp
  have n: "\<And>i. i < 3 \<Longrightarrow> decodeChannels packedLoader chunk12 ! i
       = \<lparr> buffer = buffer chunk12, byteOffset = i * 4, len = 4 \<rparr>"
    using v by (simp add: chunk12_def)
  have "decodeChannels packedLoader chunk12 =
       [decodeChannels packedLoader chunk12 ! 0, decodeChannels packedLoader chunk12 ! 1,
        decodeChannels packedLoader chunk12 ! 2]"
    using l by (rule list3)
  then show ?thesis using n [of 0] n [of 1] n [of 2] packed_size dv
    by (simp add: positions_def)
qed

text \<open>
  A buffer of 3 elements with 2 channels: the quotient is 1.5, \<^verbatim>\<open>subarray(0, 1.5)\<close> has
  one element and \<^verbatim>\<open>subarray(1.5, 3)\<close> has two, so the views do not all have the length
  of the quotient.
\<close>

theorem decodeChannels_uneven:
  "js_index (chunks (base pairLoader)) (yIndex pairLoader - 1) = Some 2
   \<and> len chunk3 = 3
   \<and> map len (decodeChannels pairLoader chunk3) = [1, 2]"
  by code_simp

subsection \<open>The reads of one call\<close>

lemma collect_Inr_iff:
  "collect rs = Inr vs \<longleftrightarrow> length vs = length rs \<and> (\<forall>i<length rs. rs ! i = Inr (vs ! i))"
proof (induction rs arbitrary: vs)
  case Nil
  then show ?case by auto
next
  case (Cons r rs)
  show ?case
  proof (cases r)
    case (Inl e)
    then show ?thesis by (cases vs) auto
  next
    case (Inr v)
    show ?thesis
    proof (cases vs)
      case Nil
      then show ?thesis using Inr by (simp split: sum.splits)
    next
      case (Cons w ws)
      have "collect (r # rs) = Inr (w # ws) \<longleftrightarrow> v = w \<and> collect rs = Inr ws"
        using Inr by (auto split: sum.splits)
      also have "\<dots> \<longleftrightarrow> v = w \<and> length ws = length rs \<and> (\<forall>i<length rs. rs ! i = Inr (ws ! i))"
        by (simp add: Cons.IH)
      also have "\<dots> \<longleftrightarrow> length (w # ws) = length (r # rs)
                        \<and> (\<forall>i<length (r # rs). (r # rs) ! i = Inr ((w # ws) ! i))"
        using Inr by (auto simp: nth_Cons split: nat.splits)
      finally show ?thesis using Cons by simp
    qed
  qed
qed

subsection \<open>Setting the channel selections\<close>

lemma chunkViolation_iff:
  "chunkViolation L sel \<longleftrightarrow>
     (\<exists>i<length sel. sel ! i \<noteq> 0 \<and> (\<exists>c. js_index (chunks (base L)) (int i) = Some c \<and> 1 < c))"
proof
  assume "chunkViolation L sel"
  then obtain p where p: "p \<in> set (enumerate 0 sel)"
    and v: "snd p \<noteq> 0" "(case js_index (chunks (base L)) (int (fst p)) of Some c \<Rightarrow> c > 1 | None \<Rightarrow> False)"
    by (auto simp: chunkViolation_def list_ex_iff)
  from p have "fst p < length sel" "sel ! fst p = snd p"
    by (auto simp: in_set_enumerate_eq)
  with v show "\<exists>i<length sel. sel ! i \<noteq> 0 \<and> (\<exists>c. js_index (chunks (base L)) (int i) = Some c \<and> 1 < c)"
    by (intro exI [of _ "fst p"]) (auto split: option.splits)
next
  assume "\<exists>i<length sel. sel ! i \<noteq> 0 \<and> (\<exists>c. js_index (chunks (base L)) (int i) = Some c \<and> 1 < c)"
  then obtain i c where i: "i < length sel" "sel ! i \<noteq> 0"
    "js_index (chunks (base L)) (int i) = Some c" "1 < c" by blast
  then have "(i, sel ! i) \<in> set (enumerate 0 sel)"
    by (simp add: in_set_enumerate_eq)
  with i show "chunkViolation L sel"
    unfolding chunkViolation_def list_ex_iff by (intro bexI [of _ "(i, sel ! i)"]) auto
qed

lemma validate_None_iff:
  "validate L sels = None \<longleftrightarrow>
     (\<forall>sel\<in>set sels. length sel = length (shape (base L)) \<and> \<not> chunkViolation L sel)"
  by (induction sels) auto

lemma validate_Some:
  "validate L sels = Some e \<Longrightarrow> e = ShapeMismatch \<or> e = ChunkSelection"
  by (induction sels) (auto split: if_splits)

lemma setChannelSelections_frame:
  "snd (setChannelSelections nrm L input)
     = L\<lparr> channelSelections := channelSelections (snd (setChannelSelections nrm L input)) \<rparr>"
  by (simp add: setChannelSelections_def split: sum.splits option.splits)

lemma wrap_not_Nil: "wrap input \<noteq> []"
  by (cases input rule: wrap.cases) auto

text \<open>
  C4: when the selections normalise to a list that has more than one element on an
  interleaved or packed array, or holds a selection whose length is not the rank of the
  array, or holds a selection that is not 0 at an axis whose chunk size is above 1, then
  \<^verbatim>\<open>setChannelSelections\<close> throws one of its configuration errors and the loader after
  the call is the loader before it.
\<close>

theorem setChannelSelections_rejects:
  assumes n: "collect (map (normalizeOne nrm L) (wrap input)) = Inr sels"
    and bad: "(1 < length sels \<and> (isRgb L \<or> isUnchunkedMultiChannel L))
            \<or> (\<exists>sel\<in>set sels. length sel \<noteq> length (shape (base L)))
            \<or> (\<exists>sel\<in>set sels. \<exists>i<length sel. sel ! i \<noteq> 0
                  \<and> (\<exists>c. js_index (chunks (base L)) (int i) = Some c \<and> 1 < c))"
  shows "\<exists>e. ConfigurationError e \<and> setChannelSelections nrm L input = (Some e, L)"
proof (cases "(isRgb L \<or> isUnchunkedMultiChannel L) \<and> 1 < length sels")
  case True
  then have "setChannelSelections nrm L input = (Some MultipleSelections, L)"
    using n by (simp add: setChannelSelections_def)
  then show ?thesis by (intro exI [of _ MultipleSelections]) simp
next
  case False
  with bad have "(\<exists>sel\<in>set sels. length sel \<noteq> length (shape (base L)))
                \<or> (\<exists>sel\<in>set sels. chunkViolation L sel)"
    unfolding chunkViolation_iff by blast
  then have "\<not> (\<forall>sel\<in>set sels. length sel = length (shape (base L)) \<and> \<not> chunkViolation L sel)"
    by blast
  then have "validate L sels \<noteq> None"
    by (simp add: validate_None_iff)
  then obtain e where e: "validate L sels = Some e" by auto
  then have "ConfigurationError e" using validate_Some by fastforce
  moreover have "setChannelSelections nrm L input = (Some e, L)"
    using n False e by (auto simp: setChannelSelections_def)
  ultimately show ?thesis by blast
qed

text \<open>A selection of two entries on the array of rank 3.\<close>

theorem setChannelSelections_rejects_witness:
  "collect (map (normalizeOne numbersOnly plainLoader) (wrap (One [Direct 1, Direct 0])))
     = Inr [[1, 0]]
   \<and> (\<exists>sel\<in>set [[1, 0 :: int]]. length sel \<noteq> length (shape (base plainLoader)))
   \<and> (\<exists>e. ConfigurationError e
          \<and> setChannelSelections numbersOnly plainLoader (One [Direct 1, Direct 0])
              = (Some e, plainLoader))"
proof -
  have n: "collect (map (normalizeOne numbersOnly plainLoader) (wrap (One [Direct 1, Direct 0])))
     = Inr [[1, 0]]"
    by (simp add: normalizeOne_def plainLoader_def)
  have b: "\<exists>sel\<in>set [[1, 0 :: int]]. length sel \<noteq> length (shape (base plainLoader))"
    by (simp add: plainLoader_def base_def plainArray_def)
  from n b setChannelSelections_rejects [OF n] show ?thesis by blast
qed

subsection \<open>The constructor\<close>

lemma construct_Inr:
  assumes "construct g d b n dims rgb sc tr = Inr L"
  shows "data L = d
       \<and> channelSelections L = [replicate (length (shape b)) 0]
       \<and> isRgb L = (case rgb of Some True \<Rightarrow> True | Some False \<Rightarrow> g (shape b) | None \<Rightarrow> g (shape b))
       \<and> xIndex L = (if isRgb L then int (length (shape b)) - 2 else int (length (shape b)) - 1)
       \<and> yIndex L = (if isRgb L then int (length (shape b)) - 3 else int (length (shape b)) - 2)"
  using assms by (auto simp: construct_def Let_def split: if_splits)

lemma ZarrLoader_Inr:
  assumes "ZarrLoader g e d dims rgb sc tr = Inr L"
  shows "channelSelections L = [replicate (length (shape (base L))) 0]
       \<and> isRgb L = (case rgb of Some True \<Rightarrow> True | Some False \<Rightarrow> g (shape (base L))
                                | None \<Rightarrow> g (shape (base L)))
       \<and> xIndex L = (if isRgb L then int (length (shape (base L))) - 2
                     else int (length (shape (base L))) - 1)
       \<and> yIndex L = (if isRgb L then int (length (shape (base L))) - 3
                     else int (length (shape (base L))) - 2)"
proof (cases d)
  case (Inl a)
  then have c: "construct g (Single a) a 1 dims rgb sc tr = Inr L"
    using assms by (simp add: ZarrLoader_def)
  from construct_Inr [OF c] have "base L = a" by (simp add: base_def)
  with construct_Inr [OF c] show ?thesis by (simp split: option.splits bool.splits)
next
  case (Inr arrs)
  then obtain b rest where arrs: "arrs = b # rest"
    and c: "construct g (Pyramid b rest) b (length arrs) dims rgb sc tr = Inr L"
    using assms by (auto simp: ZarrLoader_def split: if_splits list.splits)
  from construct_Inr [OF c] have "base L = b" by (simp add: base_def)
  with construct_Inr [OF c] show ?thesis by (simp split: option.splits bool.splits)
qed

subsection \<open>What holds in every state\<close>

lemma base_frame [simp]: "base (L\<lparr> channelSelections := s \<rparr>) = base L"
  by (simp add: base_def)

lemma packed_frame [simp]:
  "isUnchunkedMultiChannel (L\<lparr> channelSelections := s \<rparr>) = isUnchunkedMultiChannel L"
  by (simp add: isUnchunkedMultiChannel_def)

lemma setChannelSelections_cases:
  obtains (thrown) e where "setChannelSelections nrm L input = (Some e, L)"
  | (assigned) sels where "setChannelSelections nrm L input = (None, L\<lparr> channelSelections := sels \<rparr>)"
      and "collect (map (normalizeOne nrm L) (wrap input)) = Inr sels"
      and "validate L sels = None"
      and "\<not> ((isRgb L \<or> isUnchunkedMultiChannel L) \<and> 1 < length sels)"
proof (cases "collect (map (normalizeOne nrm L) (wrap input))")
  case (Inl e)
  then have "setChannelSelections nrm L input = (Some e, L)"
    by (simp add: setChannelSelections_def)
  then show ?thesis by (rule thrown)
next
  case (Inr sels)
  show ?thesis
  proof (cases "(isRgb L \<or> isUnchunkedMultiChannel L) \<and> 1 < length sels")
    case True
    then have "setChannelSelections nrm L input = (Some MultipleSelections, L)"
      using Inr by (simp add: setChannelSelections_def)
    then show ?thesis by (rule thrown)
  next
    case False
    show ?thesis
    proof (cases "validate L sels")
      case None
      then have "setChannelSelections nrm L input = (None, L\<lparr> channelSelections := sels \<rparr>)"
        using Inr False by (auto simp: setChannelSelections_def)
      then show ?thesis using Inr None False by (rule assigned)
    next
      case (Some e)
      then have "setChannelSelections nrm L input = (Some e, L)"
        using Inr False by (auto simp: setChannelSelections_def)
      then show ?thesis by (rule thrown)
    qed
  qed
qed

lemma reachable_axes: "reachable nrm L \<Longrightarrow> axes L"
proof (induction rule: reachable.induct)
  case (constructed guessRgb ensureDecreasing d dims rgb sc tr L)
  then show ?case using ZarrLoader_Inr by (fastforce simp: axes_def)
next
  case (called L input)
  show ?case
  proof (cases rule: setChannelSelections_cases [of nrm L input])
    case (thrown e)
    then show ?thesis using called.IH by simp
  next
    case (assigned sels)
    then show ?thesis using called.IH by (simp add: axes_def)
  qed
qed

lemma reachable_selections:
  "reachable nrm L \<Longrightarrow>
     channelSelections L \<noteq> []
   \<and> ((isRgb L \<or> isUnchunkedMultiChannel L) \<longrightarrow> length (channelSelections L) = 1)
   \<and> (\<forall>sel\<in>set (channelSelections L).
         length sel = length (shape (base L)) \<and> \<not> chunkViolation L sel)"
proof (induction rule: reachable.induct)
  case (constructed guessRgb ensureDecreasing d dims rgb sc tr L)
  from ZarrLoader_Inr [OF constructed]
  have s: "channelSelections L = [replicate (length (shape (base L))) 0]" by simp
  then show ?case by (simp add: chunkViolation_iff)
next
  case (called L input)
  show ?case
  proof (cases rule: setChannelSelections_cases [of nrm L input])
    case (thrown e)
    then show ?thesis using called.IH by simp
  next
    case (assigned sels)
    from assigned(2) have "length sels = length (wrap input)"
      by (simp add: collect_Inr_iff)
    then have ne: "sels \<noteq> []" using wrap_not_Nil [of input] by auto
    then have "0 < length sels" by simp
    with assigned(4) have one: "(isRgb L \<or> isUnchunkedMultiChannel L) \<longrightarrow> length sels = 1"
      by linarith
    from assigned(3) have "\<forall>sel\<in>set sels. length sel = length (shape (base L)) \<and> \<not> chunkViolation L sel"
      by (simp add: validate_None_iff)
    then show ?thesis using assigned(1) ne one by (simp add: chunkViolation_def)
  qed
qed

text \<open>
  C5: in every state of a loader, after the constructor and after any calls of
  \<^verbatim>\<open>setChannelSelections\<close> that returned or threw, each active selection has as many
  entries as the base array has axes, and its entry is 0 at every axis whose chunk size in
  the base array is above 1.
\<close>

theorem selections_invariant:
  assumes "reachable nrm L"
  shows "\<forall>sel\<in>set (channelSelections L).
           length sel = length (shape (base L))
         \<and> (\<forall>i<length sel. \<forall>c. js_index (chunks (base L)) (int i) = Some c \<longrightarrow> 1 < c
                \<longrightarrow> sel ! i = 0)"
proof
  fix sel assume "sel \<in> set (channelSelections L)"
  with reachable_selections [OF assms]
  have l: "length sel = length (shape (base L))" and v: "\<not> chunkViolation L sel" by auto
  from v have "\<forall>i<length sel. \<forall>c. js_index (chunks (base L)) (int i) = Some c \<longrightarrow> 1 < c
                \<longrightarrow> sel ! i = 0"
    unfolding chunkViolation_iff by blast
  with l show "length sel = length (shape (base L))
         \<and> (\<forall>i<length sel. \<forall>c. js_index (chunks (base L)) (int i) = Some c \<longrightarrow> 1 < c
                \<longrightarrow> sel ! i = 0)" by simp
qed

lemma plainLoader_constructed:
  "ZarrLoader neverRgb anyOrder (Inl plainArray) None None None None = Inr plainLoader"
  by (simp add: ZarrLoader_def construct_def neverRgb_def plainArray_def plainLoader_def
      js_index_def)

lemma plainLoader_select:
  "setChannelSelections numbersOnly plainLoader (Many [[Direct 2, Direct 0, Direct 0], [Direct 0, Direct 0, Direct 0]])
     = (None, plainLoader\<lparr> channelSelections := [[2, 0, 0], [0, 0, 0]] \<rparr>)"
  by (simp add: setChannelSelections_def normalizeOne_def plainLoader_def
      isUnchunkedMultiChannel_def base_def plainArray_def js_index_def chunkViolation_def
      enumerate_eq_zip upt_rec)

text \<open>
  The loader over three channels after a call that selected the channels 2 and 0: both
  selections have three entries, and the first one, which is not 0 at the channel axis
  with chunk size 1, is 0 at the two axes with chunk size 4.
\<close>

theorem selections_invariant_witness:
  "reachable numbersOnly (plainLoader\<lparr> channelSelections := [[2, 0, 0], [0, 0, 0]] \<rparr>)
   \<and> chunks (base (plainLoader\<lparr> channelSelections := [[2, 0, 0], [0, 0, 0]] \<rparr>)) = [1, 4, 4]
   \<and> length [2, 0, 0 :: int]
        = length (shape (base (plainLoader\<lparr> channelSelections := [[2, 0, 0], [0, 0, 0]] \<rparr>)))
   \<and> length [0, 0, 0 :: int]
        = length (shape (base (plainLoader\<lparr> channelSelections := [[2, 0, 0], [0, 0, 0]] \<rparr>)))
   \<and> [2, 0, 0 :: int] ! 1 = 0 \<and> [2, 0, 0 :: int] ! 2 = 0"
proof -
  have "reachable numbersOnly plainLoader"
    using plainLoader_constructed by (rule reachable.constructed)
  then have "reachable numbersOnly (snd (setChannelSelections numbersOnly plainLoader
      (Many [[Direct 2, Direct 0, Direct 0], [Direct 0, Direct 0, Direct 0]])))"
    by (rule reachable.called)
  then have r: "reachable numbersOnly (plainLoader\<lparr> channelSelections := [[2, 0, 0], [0, 0, 0]] \<rparr>)"
    by (simp add: plainLoader_select)
  have c: "chunks (base (plainLoader\<lparr> channelSelections := [[2, 0, 0], [0, 0, 0]] \<rparr>)) = [1, 4, 4]"
    by (simp add: plainLoader_def base_def plainArray_def)
  have s: "channelSelections (plainLoader\<lparr> channelSelections := [[2, 0, 0], [0, 0, 0]] \<rparr>)
             = [[2, 0, 0], [0, 0, 0]]"
    by simp
  from selections_invariant [OF r] r c show ?thesis
    unfolding s by (simp add: js_index_def)
qed

subsection \<open>Keys\<close>

lemma js_assign_length: "i < int (length a) \<Longrightarrow> length (js_assign a i v) = length a"
  by (auto simp: js_assign_def)

lemma js_assign_nth:
  "i < int (length a) \<Longrightarrow> j < length a \<Longrightarrow> js_assign a i v ! j = (if int j = i then v else a ! j)"
  by (auto simp: js_assign_def nth_list_update)

lemma tileKey_entries:
  assumes "axes L" and "length sel = length (shape (base L))"
  shows "length (tileKey L x y sel) = length sel
       \<and> (\<forall>i<length sel. tileKey L x y sel ! i
              = (if int i = xIndex L then Num x else if int i = yIndex L then Num y
                 else Num (sel ! i)))"
proof -
  have xi: "xIndex L < int (length sel)" and yi: "yIndex L < int (length sel)"
    using assms by (auto simp: axes_def split: if_splits)
  have l1: "length (js_assign (map Num sel) (yIndex L) (Num y)) = length sel"
    using yi by (simp add: js_assign_length)
  show ?thesis
    using xi yi l1 by (simp add: tileKey_def js_assign_length js_assign_nth)
qed

lemma rasterKey_entries:
  assumes "axes L" and "length sel = length (shape (base L))"
  shows "length (rasterKey L sel) = length sel
       \<and> (\<forall>i<length sel. rasterKey L sel ! i
              = (if int i = yIndex L \<or> int i = xIndex L
                    \<or> (isRgb L \<and> int i = int (length sel) - 1)
                    \<or> (\<not> isRgb L \<and> isUnchunkedMultiChannel L \<and> int i = yIndex L - 1)
                 then Null else Num (sel ! i)))"
proof -
  have xi: "xIndex L < int (length sel)" and yi: "yIndex L < int (length sel)"
    using assms by (auto simp: axes_def split: if_splits)
  have l1: "length (js_assign (map Num sel) (yIndex L) Null) = length sel"
    using yi by (simp add: js_assign_length)
  have l2: "length (js_assign (js_assign (map Num sel) (yIndex L) Null) (xIndex L) Null) = length sel"
    using xi l1 by (simp add: js_assign_length)
  show ?thesis
    using xi yi l1 l2 by (auto simp: rasterKey_def Let_def js_assign_length js_assign_nth)
qed

subsection \<open>Reads\<close>

lemma readChunk_Inr: "readChunk s k = Inr b \<longleftrightarrow> (\<exists>A. s = Arr A \<and> getRawChunk A k = Inr b)"
  by (auto simp: readChunk_def split: source.splits sum.splits)

lemma readPlane_Inr: "readPlane s k = Inr b \<longleftrightarrow> (\<exists>A. s = Arr A \<and> getRaw A k = Inr b)"
  by (auto simp: readPlane_def split: source.splits sum.splits)

lemma collect_reads:
  assumes "ks \<noteq> []"
  shows "collect (map (readChunk s) ks) = Inr bufs \<longleftrightarrow>
     (\<exists>A. s = Arr A \<and> length bufs = length ks \<and> (\<forall>i<length ks. getRawChunk A (ks ! i) = Inr (bufs ! i)))"
proof -
  from assms have z: "0 < length ks" by simp
  show ?thesis
    unfolding collect_Inr_iff using z by (auto simp: readChunk_Inr)
qed

lemma collect_planes:
  assumes "ks \<noteq> []"
  shows "collect (map (readPlane s) ks) = Inr bufs \<longleftrightarrow>
     (\<exists>A. s = Arr A \<and> length bufs = length ks \<and> (\<forall>i<length ks. getRaw A (ks ! i) = Inr (bufs ! i)))"
proof -
  from assms have z: "0 < length ks" by simp
  show ?thesis
    unfolding collect_Inr_iff using z by (auto simp: readPlane_Inr)
qed

text \<open>
  C1, as the code has it: on a loader that is not packed, \<^verbatim>\<open>getTile\<close> returns the buffers
  \<open>bufs\<close> exactly when the level resolves to an array of the store, there is one buffer
  for each active selection, and the buffer at position \<open>i\<close> is what the chunk read of
  that array returns for the key of selection \<open>i\<close>; the key of a selection has the
  entries of the selection, with \<open>x\<close> at the X axis and \<open>y\<close> at the Y axis.
\<close>

theorem getTile_buffers:
  assumes r: "reachable nrm L" and np: "\<not> isUnchunkedMultiChannel L"
  shows "(getTile L x y z = Inr bufs \<longleftrightarrow>
            (\<exists>A. getSource L z = Arr A
               \<and> length bufs = length (channelSelections L)
               \<and> (\<forall>i<length (channelSelections L).
                     getRawChunk A (tileKey L x y (channelSelections L ! i)) = Inr (bufs ! i))))
       \<and> (\<forall>sel\<in>set (channelSelections L).
             length (tileKey L x y sel) = length sel
           \<and> (\<forall>i<length sel. tileKey L x y sel ! i
                  = (if int i = xIndex L then Num x else if int i = yIndex L then Num y
                     else Num (sel ! i))))"
proof -
  from reachable_selections [OF r]
  have ne: "channelSelections L \<noteq> []"
    and len: "\<forall>sel\<in>set (channelSelections L). length sel = length (shape (base L))" by auto
  have ks: "tileRequests L x y \<noteq> []" using ne by (simp add: tileRequests_def)
  have "getTile L x y z = collect (map (readChunk (getSource L z)) (tileRequests L x y))"
    using np by (simp add: getTile_def finishTile_def decodeIfPacked_def split: sum.splits)
  then have a: "getTile L x y z = Inr bufs \<longleftrightarrow>
            (\<exists>A. getSource L z = Arr A
               \<and> length bufs = length (channelSelections L)
               \<and> (\<forall>i<length (channelSelections L).
                     getRawChunk A (tileKey L x y (channelSelections L ! i)) = Inr (bufs ! i)))"
    by (simp add: collect_reads [OF ks]) (simp add: tileRequests_def)
  have b: "\<forall>sel\<in>set (channelSelections L).
             length (tileKey L x y sel) = length sel
           \<and> (\<forall>i<length sel. tileKey L x y sel ! i
                  = (if int i = xIndex L then Num x else if int i = yIndex L then Num y
                     else Num (sel ! i)))"
    using tileKey_entries [OF reachable_axes [OF r]] len by blast
  from a b show ?thesis by blast
qed

lemma all_less3: "P 0 \<Longrightarrow> P 1 \<Longrightarrow> P 2 \<Longrightarrow> \<forall>i<length [a, b, c]. P i"
  by (auto simp: less_Suc_eq numeral_2_eq_2)

lemma channelsLoader_reachable: "reachable numbersOnly channelsLoader"
proof -
  have "reachable numbersOnly plainLoader"
    using plainLoader_constructed by (rule reachable.constructed)
  then have "reachable numbersOnly (snd (setChannelSelections numbersOnly plainLoader
      (Many [[Direct 2, Direct 0, Direct 0], [Direct 0, Direct 0, Direct 0],
             [Direct 1, Direct 0, Direct 0]])))"
    by (rule reachable.called)
  moreover have "setChannelSelections numbersOnly plainLoader
      (Many [[Direct 2, Direct 0, Direct 0], [Direct 0, Direct 0, Direct 0],
             [Direct 1, Direct 0, Direct 0]]) = (None, channelsLoader)"
    by (simp add: setChannelSelections_def normalizeOne_def plainLoader_def channelsLoader_def
        isUnchunkedMultiChannel_def base_def plainArray_def js_index_def chunkViolation_def
        enumerate_eq_zip upt_rec)
  ultimately show ?thesis by simp
qed

lemma channelsLoader_plain: "\<not> isUnchunkedMultiChannel channelsLoader"
  by (simp add: isUnchunkedMultiChannel_def channelsLoader_def plainLoader_def base_def
      plainArray_def js_index_def)

text \<open>
  Three selections on the array that is not packed: the tile at x = 1, y = 0 is three
  buffers, in the order of the selections; the store of the example answers a read with
  the key, so the buffers show the keys.
\<close>

theorem getTile_buffers_witness:
  "reachable numbersOnly channelsLoader \<and> \<not> isUnchunkedMultiChannel channelsLoader
   \<and> channelSelections channelsLoader = [[2, 0, 0], [0, 0, 0], [1, 0, 0]]
   \<and> getTile channelsLoader 1 0 None
        = Inr [\<lparr> buffer = [2, 0, 1], byteOffset = 0, len = 3 \<rparr>,
               \<lparr> buffer = [0, 0, 1], byteOffset = 0, len = 3 \<rparr>,
               \<lparr> buffer = [1, 0, 1], byteOffset = 0, len = 3 \<rparr>]"
proof -
  have s: "channelSelections channelsLoader = [[2, 0, 0], [0, 0, 0], [1, 0, 0]]"
    by (simp add: channelsLoader_def)
  have src: "getSource channelsLoader None = Arr plainArray"
    by (simp add: getSource_def channelsLoader_def plainLoader_def)
  have k: "tileKey channelsLoader 1 0 [2, 0, 0] = [Num 2, Num 0, Num 1]"
    "tileKey channelsLoader 1 0 [0, 0, 0] = [Num 0, Num 0, Num 1]"
    "tileKey channelsLoader 1 0 [1, 0, 0] = [Num 1, Num 0, Num 1]"
    by (simp_all add: tileKey_def js_assign_def channelsLoader_def plainLoader_def)
  have e: "getRawChunk plainArray = echo" by (simp add: plainArray_def)
  have reads: "\<forall>i<length (channelSelections channelsLoader).
      getRawChunk plainArray (tileKey channelsLoader 1 0 (channelSelections channelsLoader ! i))
        = Inr ([\<lparr> buffer = [2, 0, 1], byteOffset = 0, len = 3 \<rparr>,
                \<lparr> buffer = [0, 0, 1], byteOffset = 0, len = 3 \<rparr>,
                \<lparr> buffer = [1, 0, 1], byteOffset = 0, len = 3 \<rparr>] ! i)"
    unfolding s e by (rule all_less3) (simp_all add: k echo_def)
  have "\<exists>A. getSource channelsLoader None = Arr A
          \<and> length [\<lparr> buffer = [2, 0, 1], byteOffset = 0, len = 3 \<rparr>,
                     \<lparr> buffer = [0, 0, 1], byteOffset = 0, len = 3 \<rparr>,
                     \<lparr> buffer = [1, 0, 1 :: int], byteOffset = 0, len = 3 :: nat \<rparr>]
              = length (channelSelections channelsLoader)
          \<and> (\<forall>i<length (channelSelections channelsLoader).
      getRawChunk A (tileKey channelsLoader 1 0 (channelSelections channelsLoader ! i))
        = Inr ([\<lparr> buffer = [2, 0, 1], byteOffset = 0, len = 3 \<rparr>,
                \<lparr> buffer = [0, 0, 1], byteOffset = 0, len = 3 \<rparr>,
                \<lparr> buffer = [1, 0, 1], byteOffset = 0, len = 3 \<rparr>] ! i))"
    using src reads by (intro exI [of _ plainArray] conjI) (simp_all only: s list.size)
  then have "getTile channelsLoader 1 0 None
        = Inr [\<lparr> buffer = [2, 0, 1], byteOffset = 0, len = 3 \<rparr>,
               \<lparr> buffer = [0, 0, 1], byteOffset = 0, len = 3 \<rparr>,
               \<lparr> buffer = [1, 0, 1], byteOffset = 0, len = 3 \<rparr>]"
    by (rule getTile_buffers [OF channelsLoader_reachable channelsLoader_plain,
          THEN conjunct1, THEN iffD2])
  then show ?thesis using channelsLoader_reachable channelsLoader_plain s by simp
qed

lemma packedLoader_constructed:
  "ZarrLoader neverRgb anyOrder (Inl packedArray) None None None None = Inr packedLoader"
  by (simp add: ZarrLoader_def construct_def neverRgb_def packedArray_def packedLoader_def
      js_index_def)

lemma packedLoader_packed: "isUnchunkedMultiChannel packedLoader"
  by (simp add: isUnchunkedMultiChannel_def packedLoader_def base_def packedArray_def
      js_index_def)

text \<open>
  One selection on the packed array: the tile is the three views that
  \<^verbatim>\<open>_decodeChannels\<close> cuts out of the one chunk.
\<close>

theorem getTile_packed_three:
  "ZarrLoader neverRgb anyOrder (Inl packedArray) None None None None = Inr packedLoader
   \<and> channelSelections packedLoader = [[0, 0, 0]]
   \<and> getTile packedLoader 0 0 None
        = Inr [\<lparr> buffer = buffer chunk12, byteOffset = 0, len = 4 \<rparr>,
               \<lparr> buffer = buffer chunk12, byteOffset = 4, len = 4 \<rparr>,
               \<lparr> buffer = buffer chunk12, byteOffset = 8, len = 4 \<rparr>]"
proof -
  have d: "decodeChannels packedLoader chunk12 =
       [\<lparr> buffer = buffer chunk12, byteOffset = 0, len = 4 \<rparr>,
        \<lparr> buffer = buffer chunk12, byteOffset = 4, len = 4 \<rparr>,
        \<lparr> buffer = buffer chunk12, byteOffset = 8, len = 4 \<rparr>]"
  proof -
    have l: "length (decodeChannels packedLoader chunk12) = 3"
      using decodeChannels_length [OF packed_size] by simp
    have "len chunk12 = nat 3 * 4" by (simp add: chunk12_def)
    then have n: "\<And>i. i < 3 \<Longrightarrow> decodeChannels packedLoader chunk12 ! i
         = \<lparr> buffer = buffer chunk12, byteOffset = i * 4, len = 4 \<rparr>"
      using decodeChannels_nth [OF packed_size, of chunk12 4] by (simp add: chunk12_def)
    from list3 [OF l] n [of 0] n [of 1] n [of 2] show ?thesis by simp
  qed
  have src: "getSource packedLoader None = Arr packedArray"
    by (simp add: getSource_def packedLoader_def)
  have rd: "\<And>k. readChunk (Arr packedArray) k = Inr chunk12"
    by (simp add: readChunk_def packedArray_def)
  have s: "channelSelections packedLoader = [[0, 0, 0]]"
    by (simp add: packedLoader_def)
  have "getTile packedLoader 0 0 None = Inr (decodeChannels packedLoader chunk12)"
    by (simp add: getTile_def finishTile_def tileRequests_def src rd s decodeIfPacked_def
        packedLoader_packed)
  with d packedLoader_constructed s show ?thesis by simp
qed

text \<open>
  What a raster read does on every loader: the key has the entries of the selection,
  with the whole axis at Y, at X, at the last axis when the loader is interleaved, and at
  the axis before Y when the loader is packed and not interleaved; \<^verbatim>\<open>getRaster\<close>
  returns exactly when the level resolves to an array of the store and the plane read of
  that array returns a buffer for the key of each selection, and then the width and the
  height are the entries of the shape of that array at X and at Y, whatever the buffers
  are.
\<close>

theorem getRaster_planes:
  assumes r: "reachable nrm L"
  shows "(\<forall>sel\<in>set (channelSelections L).
             length (rasterKey L sel) = length sel
           \<and> (\<forall>i<length sel. rasterKey L sel ! i
                  = (if int i = yIndex L \<or> int i = xIndex L
                        \<or> (isRgb L \<and> int i = int (length sel) - 1)
                        \<or> (\<not> isRgb L \<and> isUnchunkedMultiChannel L \<and> int i = yIndex L - 1)
                     then Null else Num (sel ! i))))
       \<and> (getRaster L z = Inr res \<longleftrightarrow>
            (\<exists>A bufs. getSource L z = Arr A
               \<and> length bufs = length (channelSelections L)
               \<and> (\<forall>i<length (channelSelections L).
                     getRaw A (rasterKey L (channelSelections L ! i)) = Inr (bufs ! i))
               \<and> res = \<lparr> raster = (if isUnchunkedMultiChannel L
                                      then decodeChannels L (bufs ! 0) else bufs),
                           width = js_index (shape A) (xIndex L),
                           height = js_index (shape A) (yIndex L) \<rparr>))"
proof -
  from reachable_selections [OF r]
  have ne: "channelSelections L \<noteq> []"
    and len: "\<forall>sel\<in>set (channelSelections L). length sel = length (shape (base L))" by auto
  have ks: "rasterRequests L \<noteq> []" using ne by (simp add: rasterRequests_def)
  have a: "\<forall>sel\<in>set (channelSelections L).
             length (rasterKey L sel) = length sel
           \<and> (\<forall>i<length sel. rasterKey L sel ! i
                  = (if int i = yIndex L \<or> int i = xIndex L
                        \<or> (isRgb L \<and> int i = int (length sel) - 1)
                        \<or> (\<not> isRgb L \<and> isUnchunkedMultiChannel L \<and> int i = yIndex L - 1)
                     then Null else Num (sel ! i)))"
    using rasterKey_entries [OF reachable_axes [OF r]] len by blast
  have dec: "\<And>bufs. length bufs = length (channelSelections L) \<Longrightarrow>
      decodeIfPacked L bufs = Inr (if isUnchunkedMultiChannel L
                                   then decodeChannels L (bufs ! 0) else bufs)"
  proof -
    fix bufs :: "typed_array list" assume "length bufs = length (channelSelections L)"
    with ne obtain b0 rest where "bufs = b0 # rest" by (cases bufs) auto
    then show "decodeIfPacked L bufs = Inr (if isUnchunkedMultiChannel L
                                   then decodeChannels L (bufs ! 0) else bufs)"
      by (simp add: decodeIfPacked_def)
  qed
  have b: "getRaster L z = Inr res \<longleftrightarrow>
            (\<exists>A bufs. getSource L z = Arr A
               \<and> length bufs = length (channelSelections L)
               \<and> (\<forall>i<length (channelSelections L).
                     getRaw A (rasterKey L (channelSelections L ! i)) = Inr (bufs ! i))
               \<and> res = \<lparr> raster = (if isUnchunkedMultiChannel L
                                      then decodeChannels L (bufs ! 0) else bufs),
                           width = js_index (shape A) (xIndex L),
                           height = js_index (shape A) (yIndex L) \<rparr>)" (is "?lhs \<longleftrightarrow> ?rhs")
  proof
    assume ?lhs
    then obtain bufs where c: "collect (map (readPlane (getSource L z)) (rasterRequests L)) = Inr bufs"
      by (auto simp: getRaster_def finishRaster_def split: sum.splits)
    then obtain A where A: "getSource L z = Arr A" "length bufs = length (rasterRequests L)"
      "\<forall>i<length (rasterRequests L). getRaw A (rasterRequests L ! i) = Inr (bufs ! i)"
      unfolding collect_planes [OF ks] by blast
    then have lb: "length bufs = length (channelSelections L)" by (simp add: rasterRequests_def)
    from \<open>?lhs\<close> c A(1) dec [OF lb]
    have "res = \<lparr> raster = (if isUnchunkedMultiChannel L
                                      then decodeChannels L (bufs ! 0) else bufs),
                           width = js_index (shape A) (xIndex L),
                           height = js_index (shape A) (yIndex L) \<rparr>"
      by (simp add: getRaster_def finishRaster_def)
    with A lb show ?rhs by (intro exI [of _ A] exI [of _ bufs]) (simp add: rasterRequests_def)
  next
    assume ?rhs
    then obtain A bufs where A: "getSource L z = Arr A"
      and lb: "length bufs = length (channelSelections L)"
      and rd: "\<forall>i<length (channelSelections L).
                     getRaw A (rasterKey L (channelSelections L ! i)) = Inr (bufs ! i)"
      and res: "res = \<lparr> raster = (if isUnchunkedMultiChannel L
                                      then decodeChannels L (bufs ! 0) else bufs),
                           width = js_index (shape A) (xIndex L),
                           height = js_index (shape A) (yIndex L) \<rparr>" by blast
    have "collect (map (readPlane (getSource L z)) (rasterRequests L)) = Inr bufs"
      unfolding collect_planes [OF ks] using A lb rd by (simp add: rasterRequests_def)
    then show ?lhs using A dec [OF lb] res by (simp add: getRaster_def finishRaster_def)
  qed
  from a b show ?thesis by blast
qed

lemma plainLoader_reachable: "reachable numbersOnly plainLoader"
  using plainLoader_constructed by (rule reachable.constructed)

text \<open>
  The raster of the first channel of the array of 8 by 8 pixels: the store of the example
  answers with a buffer of three elements, the key, and the width and the height are 8.
\<close>

theorem getRaster_planes_witness:
  "reachable numbersOnly plainLoader
   \<and> rasterKey plainLoader [0, 0, 0] = [Num 0, Null, Null]
   \<and> getRaster plainLoader None
        = Inr \<lparr> raster = [\<lparr> buffer = [0, - 1, - 1], byteOffset = 0, len = 3 \<rparr>],
                 width = Some 8, height = Some 8 \<rparr>"
proof -
  have s: "channelSelections plainLoader = [[0, 0, 0]]"
    by (simp add: plainLoader_def)
  have np: "\<not> isUnchunkedMultiChannel plainLoader"
    by (simp add: isUnchunkedMultiChannel_def plainLoader_def base_def plainArray_def
        js_index_def)
  have src: "getSource plainLoader None = Arr plainArray"
    by (simp add: getSource_def plainLoader_def)
  have f: "xIndex plainLoader = 2" "yIndex plainLoader = 1" "\<not> isRgb plainLoader"
    by (simp_all add: plainLoader_def)
  have k: "rasterKey plainLoader [0, 0, 0] = [Num 0, Null, Null]"
    by (simp add: rasterKey_def Let_def js_assign_def f np)
  have wh: "js_index (shape plainArray) (xIndex plainLoader) = Some 8"
    "js_index (shape plainArray) (yIndex plainLoader) = Some 8"
    by (simp_all add: js_index_def plainArray_def plainLoader_def)
  have e: "getRaw plainArray [Num 0, Null, Null]
             = Inr \<lparr> buffer = [0, - 1, - 1], byteOffset = 0, len = 3 \<rparr>"
    by (simp add: plainArray_def echo_def)
  have "\<exists>A bufs. getSource plainLoader None = Arr A
               \<and> length bufs = length (channelSelections plainLoader)
               \<and> (\<forall>i<length (channelSelections plainLoader).
                     getRaw A (rasterKey plainLoader (channelSelections plainLoader ! i)) = Inr (bufs ! i))
               \<and> \<lparr> raster = [\<lparr> buffer = [0, - 1, - 1], byteOffset = 0, len = 3 \<rparr>],
                 width = Some 8, height = Some 8 \<rparr>
                  = \<lparr> raster = (if isUnchunkedMultiChannel plainLoader
                                      then decodeChannels plainLoader (bufs ! 0) else bufs),
                           width = js_index (shape A) (xIndex plainLoader),
                           height = js_index (shape A) (yIndex plainLoader) \<rparr>"
    unfolding s
    by (intro exI [of _ plainArray] exI [of _ "[\<lparr> buffer = [0, - 1, - 1], byteOffset = 0, len = 3 \<rparr>]"])
       (simp add: src k e np wh)
  then have "getRaster plainLoader None
        = Inr \<lparr> raster = [\<lparr> buffer = [0, - 1, - 1], byteOffset = 0, len = 3 \<rparr>],
                 width = Some 8, height = Some 8 \<rparr>"
    by (rule getRaster_planes [OF plainLoader_reachable, THEN conjunct2, THEN iffD2])
  with k plainLoader_reachable show ?thesis by simp
qed

text \<open>
  C2, at the input where the code departs from it: an interleaved array whose axis before
  Y has two frames to a chunk, so that the loader is interleaved and packed. The raster
  key opens Y, X and the last axis and keeps the 0 at the axis before Y (the test for a
  packed array at line 118 is the \<^verbatim>\<open>else\<close> of the test for an interleaved one), and
  the buffer of that one frame is then cut into two views (the test at line 128 has no
  such \<^verbatim>\<open>else\<close>). The store of the example answers a read with the key.
\<close>

theorem getRaster_interleaved_packed:
  "ZarrLoader neverRgb anyOrder (Inl framesArray) None (Some True) None None = Inr framesLoader
   \<and> isRgb framesLoader \<and> isUnchunkedMultiChannel framesLoader
   \<and> yIndex framesLoader - 1 = 0
   \<and> channelSelections framesLoader = [[0, 0, 0, 0]]
   \<and> rasterRequests framesLoader = [[Num 0, Null, Null, Null]]
   \<and> getRaster framesLoader None
       = Inr \<lparr> raster = [\<lparr> buffer = [0, - 1, - 1, - 1], byteOffset = 0, len = 2 \<rparr>,
                          \<lparr> buffer = [0, - 1, - 1, - 1], byteOffset = 2, len = 2 \<rparr>],
                width = Some 4, height = Some 4 \<rparr>"
proof -
  have c: "ZarrLoader neverRgb anyOrder (Inl framesArray) None (Some True) None None
             = Inr framesLoader"
    by (simp add: ZarrLoader_def construct_def framesArray_def framesLoader_def js_index_def)
  have f: "isRgb framesLoader" "xIndex framesLoader = 2" "yIndex framesLoader = 1"
    "channelSelections framesLoader = [[0, 0, 0, 0]]" "base framesLoader = framesArray"
    "data framesLoader = Single framesArray"
    by (simp_all add: framesLoader_def base_def)
  have p: "isUnchunkedMultiChannel framesLoader"
    by (simp add: isUnchunkedMultiChannel_def f framesArray_def js_index_def)
  have k: "rasterKey framesLoader [0, 0, 0, 0] = [Num 0, Null, Null, Null]"
    by (simp add: rasterKey_def Let_def js_assign_def f)
  have rd: "readPlane (Arr framesArray) [Num 0, Null, Null, Null]
              = Inr \<lparr> buffer = [0, - 1, - 1, - 1], byteOffset = 0, len = 4 \<rparr>"
    by (simp add: readPlane_def framesArray_def echo_def)
  have size: "js_index (chunks (base framesLoader)) (yIndex framesLoader - 1) = Some 2"
    by (simp add: f framesArray_def js_index_def)
  have d: "decodeChannels framesLoader \<lparr> buffer = [0, - 1, - 1, - 1], byteOffset = 0, len = 4 \<rparr>
             = [\<lparr> buffer = [0, - 1, - 1, - 1], byteOffset = 0, len = 2 \<rparr>,
                \<lparr> buffer = [0, - 1, - 1, - 1], byteOffset = 2, len = 2 \<rparr>]"
  proof -
    have l: "length (decodeChannels framesLoader
               \<lparr> buffer = [0, - 1, - 1, - 1], byteOffset = 0, len = 4 \<rparr>) = 2"
      using decodeChannels_length [OF size] by simp
    have n: "\<And>i. i < 2 \<Longrightarrow> decodeChannels framesLoader
               \<lparr> buffer = [0, - 1, - 1, - 1], byteOffset = 0, len = 4 \<rparr> ! i
             = \<lparr> buffer = [0, - 1, - 1, - 1], byteOffset = i * 2, len = 2 \<rparr>"
      using decodeChannels_nth [OF size, of "\<lparr> buffer = [0, - 1, - 1, - 1], byteOffset = 0, len = 4 \<rparr>" 2]
      by simp
    from l n [of 0] n [of 1] show ?thesis
      by (simp add: list_eq_iff_nth_eq less_Suc_eq numeral_2_eq_2)
  qed
  have wh: "js_index (shape framesArray) (xIndex framesLoader) = Some 4"
    "js_index (shape framesArray) (yIndex framesLoader) = Some 4"
    by (simp_all add: js_index_def framesArray_def f)
  have src: "getSource framesLoader None = Arr framesArray"
    by (simp add: getSource_def f)
  have rq: "rasterRequests framesLoader = [[Num 0, Null, Null, Null]]"
    by (simp add: rasterRequests_def f k)
  have "getRaster framesLoader None
       = Inr \<lparr> raster = [\<lparr> buffer = [0, - 1, - 1, - 1], byteOffset = 0, len = 2 \<rparr>,
                          \<lparr> buffer = [0, - 1, - 1, - 1], byteOffset = 2, len = 2 \<rparr>],
                width = Some 4, height = Some 4 \<rparr>"
    by (simp add: getRaster_def finishRaster_def src rq rd decodeIfPacked_def p d wh)
  with c f p rq show ?thesis by simp
qed

subsection \<open>Resolving the level\<close>

lemma getSource_Single: "data L = Single a \<Longrightarrow> getSource L z = Arr a"
  by (simp add: getSource_def)

lemma getSource_Pyramid_level:
  "data L = Pyramid b rest \<Longrightarrow>
     getSource L (Some i) = (case js_index (b # rest) i of Some a \<Rightarrow> Arr a | None \<Rightarrow> Undef)"
  by (simp add: getSource_def)

lemma pyramidLoader_constructed:
  "ZarrLoader neverRgb anyOrder (Inr [plainArray, halfArray]) None None None None
     = Inr pyramidLoader"
  by (simp add: ZarrLoader_def construct_def neverRgb_def anyOrder_def plainArray_def
      pyramidLoader_def js_index_def)

text \<open>
  C6, at the input where the code departs from it: a loader over a pyramid of two
  arrays, asked without a level. \<^verbatim>\<open>_getSource\<close> returns the list of the two arrays and not an
  array, while the accessor \<^verbatim>\<open>base\<close> returns the first array; the raster read and the
  tile read on the list end in a TypeError.
\<close>

theorem getSource_pyramid_without_level:
  "ZarrLoader neverRgb anyOrder (Inr [plainArray, halfArray]) None None None None
     = Inr pyramidLoader
   \<and> isPyramid pyramidLoader
   \<and> base pyramidLoader = plainArray
   \<and> getSource pyramidLoader None = Arrs [plainArray, halfArray]
   \<and> getRaster pyramidLoader None = Inl TypeError
   \<and> getTile pyramidLoader 0 0 None = Inl TypeError"
proof -
  have d: "data pyramidLoader = Pyramid plainArray [halfArray]"
    and s: "channelSelections pyramidLoader = [[0, 0, 0]]"
    by (simp_all add: pyramidLoader_def)
  have src: "getSource pyramidLoader None = Arrs [plainArray, halfArray]"
    by (simp add: getSource_def d)
  have r: "getRaster pyramidLoader None = Inl TypeError"
    by (simp add: getRaster_def finishRaster_def rasterRequests_def src s readPlane_def)
  have t: "getTile pyramidLoader 0 0 None = Inl TypeError"
    by (simp add: getTile_def finishTile_def tileRequests_def src s readChunk_def)
  show ?thesis
    using pyramidLoader_constructed src r t by (simp add: isPyramid_def base_def d)
qed

subsection \<open>The hook for a failed read\<close>

lemma take_eq_iff_prefix: "take (length sub) s = sub \<longleftrightarrow> (\<exists>q. s = sub @ q)"
proof
  assume "take (length sub) s = sub"
  then have "s = sub @ drop (length sub) s" by (metis append_take_drop_id)
  then show "\<exists>q. s = sub @ q" ..
next
  assume "\<exists>q. s = sub @ q"
  then show "take (length sub) s = sub" by auto
qed

lemma includes_iff: "includes' s sub \<longleftrightarrow> (\<exists>p q. s = p @ sub @ q)"
proof (induction s)
  case Nil
  then show ?case by auto
next
  case (Cons c cs)
  have "(\<exists>p q. c # cs = p @ sub @ q)
          \<longleftrightarrow> (\<exists>q. c # cs = sub @ q) \<or> (\<exists>p q. cs = p @ sub @ q)"
  proof
    assume "\<exists>p q. c # cs = p @ sub @ q"
    then obtain p q where pq: "c # cs = p @ sub @ q" by blast
    show "(\<exists>q. c # cs = sub @ q) \<or> (\<exists>p q. cs = p @ sub @ q)"
    proof (cases p)
      case Nil
      with pq show ?thesis by auto
    next
      case (Cons a p')
      with pq have "cs = p' @ sub @ q" by simp
      then show ?thesis by blast
    qed
  next
    assume "(\<exists>q. c # cs = sub @ q) \<or> (\<exists>p q. cs = p @ sub @ q)"
    then show "\<exists>p q. c # cs = p @ sub @ q"
    proof
      assume "\<exists>q. c # cs = sub @ q"
      then obtain q where "c # cs = [] @ sub @ q" by auto
      then show ?thesis by blast
    next
      assume "\<exists>p q. cs = p @ sub @ q"
      then obtain p q where "c # cs = (c # p) @ sub @ q" by auto
      then show ?thesis by blast
    qed
  qed
  then show ?case
    using Cons.IH take_eq_iff_prefix [of sub "c # cs"] by simp
qed

text \<open>
  What the hook does with every error: it returns when the message of the error has the
  text \<^verbatim>\<open>RangeError\<close> somewhere in it, and throws the very error it was given when it
  has not. The class of the error plays no part.
\<close>

lemma onTileError_message:
  "onTileError err
     = (if \<exists>p q. message err = p @ ''RangeError'' @ q then Inr () else Inl err)"
  by (simp add: onTileError_def includes_iff)

lemma onTileError_class:
  "onTileError (err\<lparr> instanceOf := c \<rparr>)
     = (case onTileError err of Inl e \<Rightarrow> Inl (e\<lparr> instanceOf := c \<rparr>) | Inr u \<Rightarrow> Inr u)"
  by (simp add: onTileError_def)

text \<open>
  C7, at the inputs where the code departs from it. An error of the class that the store
  has for a read out of bounds, with a message that does not have the text
  \<^verbatim>\<open>RangeError\<close>, is thrown again; an error of another class whose message has that
  text is swallowed. The comments of lines 136 and 139 say that the hook is to tell the
  errors apart by the class and to throw again whatever is not a tile out of bounds.
\<close>

theorem onTileError_by_message_only:
  "onTileError \<lparr> instanceOf = BoundCheckError,
                 message = ''index out of bounds for dimension with length 2'' \<rparr>
     = Inl \<lparr> instanceOf = BoundCheckError,
             message = ''index out of bounds for dimension with length 2'' \<rparr>
   \<and> onTileError \<lparr> instanceOf = OtherError,
                   message = ''RangeError: Offset is outside the bounds of the DataView'' \<rparr>
     = Inr ()"
proof -
  have a: "\<not> includes' ''index out of bounds for dimension with length 2'' ''RangeError''"
    by simp
  have b: "includes' ''RangeError: Offset is outside the bounds of the DataView'' ''RangeError''"
    by simp
  from a b show ?thesis by (simp add: onTileError_def)
qed

subsection \<open>A new loader\<close>

text \<open>
  C9, as the code has it: the loader that the constructor returns has one active
  selection, with a 0 for every axis of the base array; when the loader is not packed, a
  tile read and a raster read build the one key of that selection, and they return
  exactly when the level resolves to an array of the store and the read of that array
  with that key returns, and then what they return is the one buffer of that read.
\<close>

theorem new_loader_one_read:
  assumes c: "ZarrLoader guessRgb ensureDecreasing d dims rgb sc tr = Inr L"
    and np: "\<not> isUnchunkedMultiChannel L"
  shows "channelSelections L = [replicate (length (shape (base L))) 0]
       \<and> tileRequests L x y = [tileKey L x y (replicate (length (shape (base L))) 0)]
       \<and> rasterRequests L = [rasterKey L (replicate (length (shape (base L))) 0)]
       \<and> (getTile L x y z = Inr bufs \<longleftrightarrow>
            (\<exists>A b. getSource L z = Arr A
               \<and> getRawChunk A (tileKey L x y (replicate (length (shape (base L))) 0)) = Inr b
               \<and> bufs = [b]))
       \<and> (getRaster L z = Inr res \<longleftrightarrow>
            (\<exists>A b. getSource L z = Arr A
               \<and> getRaw A (rasterKey L (replicate (length (shape (base L))) 0)) = Inr b
               \<and> res = \<lparr> raster = [b], width = js_index (shape A) (xIndex L),
                           height = js_index (shape A) (yIndex L) \<rparr>))"
proof -
  from ZarrLoader_Inr [OF c]
  have s: "channelSelections L = [replicate (length (shape (base L))) 0]" by simp
  have t: "getTile L x y z = Inr bufs \<longleftrightarrow>
            (\<exists>A b. getSource L z = Arr A
               \<and> getRawChunk A (tileKey L x y (replicate (length (shape (base L))) 0)) = Inr b
               \<and> bufs = [b])"
    using np
    by (auto simp: getTile_def finishTile_def tileRequests_def s decodeIfPacked_def
        readChunk_def split: source.splits sum.splits)
  have r: "getRaster L z = Inr res \<longleftrightarrow>
            (\<exists>A b. getSource L z = Arr A
               \<and> getRaw A (rasterKey L (replicate (length (shape (base L))) 0)) = Inr b
               \<and> res = \<lparr> raster = [b], width = js_index (shape A) (xIndex L),
                           height = js_index (shape A) (yIndex L) \<rparr>)"
    using np
    by (auto simp: getRaster_def finishRaster_def rasterRequests_def s decodeIfPacked_def
        readPlane_def split: source.splits sum.splits)
  from s t r show ?thesis by (simp add: tileRequests_def rasterRequests_def)
qed


text \<open>
  The loader over the array of three channels, as the constructor returns it: the tile at
  x = 1, y = 0 and the raster are one buffer each, read with the keys of the selection of
  zeros.
\<close>

theorem new_loader_one_read_witness:
  "ZarrLoader neverRgb anyOrder (Inl plainArray) None None None None = Inr plainLoader
   \<and> \<not> isUnchunkedMultiChannel plainLoader
   \<and> channelSelections plainLoader = [[0, 0, 0]]
   \<and> getTile plainLoader 1 0 None = Inr [\<lparr> buffer = [0, 0, 1], byteOffset = 0, len = 3 \<rparr>]
   \<and> getRaster plainLoader None
        = Inr \<lparr> raster = [\<lparr> buffer = [0, - 1, - 1], byteOffset = 0, len = 3 \<rparr>],
                 width = Some 8, height = Some 8 \<rparr>"
proof -
  have np: "\<not> isUnchunkedMultiChannel plainLoader"
    by (simp add: isUnchunkedMultiChannel_def plainLoader_def base_def plainArray_def
        js_index_def)
  note n = new_loader_one_read [OF plainLoader_constructed np]
  have f: "xIndex plainLoader = 2" "yIndex plainLoader = 1" "\<not> isRgb plainLoader"
    "length (shape (base plainLoader)) = 3"
    by (simp_all add: plainLoader_def base_def plainArray_def)
  have z: "replicate (length (shape (base plainLoader))) (0::int) = [0, 0, 0]"
    by (simp add: f numeral_3_eq_3)
  have src: "getSource plainLoader None = Arr plainArray"
    by (simp add: getSource_def plainLoader_def)
  have tk: "tileKey plainLoader 1 0 [0, 0, 0] = [Num 0, Num 0, Num 1]"
    by (simp add: tileKey_def js_assign_def f)
  have rk: "rasterKey plainLoader [0, 0, 0] = [Num 0, Null, Null]"
    by (simp add: rasterKey_def Let_def js_assign_def f np)
  have wh: "js_index (shape plainArray) (xIndex plainLoader) = Some 8"
    "js_index (shape plainArray) (yIndex plainLoader) = Some 8"
    by (simp_all add: js_index_def plainArray_def f)
  have e: "getRawChunk plainArray [Num 0, Num 0, Num 1]
             = Inr \<lparr> buffer = [0, 0, 1], byteOffset = 0, len = 3 \<rparr>"
    "getRaw plainArray [Num 0, Null, Null]
             = Inr \<lparr> buffer = [0, - 1, - 1], byteOffset = 0, len = 3 \<rparr>"
    by (simp_all add: plainArray_def echo_def)
  have s: "channelSelections plainLoader = [[0, 0, 0]]"
    using n [THEN conjunct1] unfolding z .
  have "\<exists>A b. getSource plainLoader None = Arr A
          \<and> getRawChunk A (tileKey plainLoader 1 0
                (replicate (length (shape (base plainLoader))) 0)) = Inr b
          \<and> [\<lparr> buffer = [0, 0, 1], byteOffset = 0, len = 3 \<rparr>] = [b]"
    unfolding z tk using src e(1) by blast
  then have t: "getTile plainLoader 1 0 None
                  = Inr [\<lparr> buffer = [0, 0, 1], byteOffset = 0, len = 3 \<rparr>]"
    by (rule n [THEN conjunct2, THEN conjunct2, THEN conjunct2, THEN conjunct1, THEN iffD2])
  have "\<exists>A b. getSource plainLoader None = Arr A
          \<and> getRaw A (rasterKey plainLoader
                (replicate (length (shape (base plainLoader))) 0)) = Inr b
          \<and> \<lparr> raster = [\<lparr> buffer = [0, - 1, - 1], byteOffset = 0, len = 3 \<rparr>],
                 width = Some 8, height = Some 8 \<rparr>
              = \<lparr> raster = [b], width = js_index (shape A) (xIndex plainLoader),
                           height = js_index (shape A) (yIndex plainLoader) \<rparr>"
    unfolding z rk
    by (intro exI [of _ plainArray] exI [of _ "\<lparr> buffer = [0, - 1, - 1], byteOffset = 0, len = 3 \<rparr>"])
       (simp add: src e wh)
  then have r: "getRaster plainLoader None
        = Inr \<lparr> raster = [\<lparr> buffer = [0, - 1, - 1], byteOffset = 0, len = 3 \<rparr>],
                 width = Some 8, height = Some 8 \<rparr>"
    by (rule n [THEN conjunct2, THEN conjunct2, THEN conjunct2, THEN conjunct2, THEN iffD2])
  from plainLoader_constructed np s t r show ?thesis by simp
qed

text \<open>
  Two new loaders that are not packed and whose reads return no buffer. On the pyramid of
  two arrays the level 2 resolves to \<^verbatim>\<open>undefined\<close> (the level is not checked against the
  number of arrays): the one read the call attempts is a TypeError and never reaches the
  store. On the array whose store rejects every read, the one read is issued and the
  call rejects with the error of the store.
\<close>

theorem new_loader_no_buffer:
  "ZarrLoader neverRgb anyOrder (Inr [plainArray, halfArray]) None None None None
     = Inr pyramidLoader
   \<and> \<not> isUnchunkedMultiChannel pyramidLoader
   \<and> getSource pyramidLoader (Some 2) = Undef
   \<and> map (readChunk (getSource pyramidLoader (Some 2))) (tileRequests pyramidLoader 0 0)
       = [Inl TypeError]
   \<and> getTile pyramidLoader 0 0 (Some 2) = Inl TypeError
   \<and> getRaster pyramidLoader (Some 2) = Inl TypeError
   \<and> ZarrLoader neverRgb anyOrder (Inl closedArray) None None None None = Inr closedLoader
   \<and> \<not> isUnchunkedMultiChannel closedLoader
   \<and> getTile closedLoader 0 0 None
       = Inl (Raised \<lparr> instanceOf = OtherError, message = ''Not Found'' \<rparr>)
   \<and> getRaster closedLoader None
       = Inl (Raised \<lparr> instanceOf = OtherError, message = ''Not Found'' \<rparr>)"
proof -
  have pd: "data pyramidLoader = Pyramid plainArray [halfArray]"
    and ps: "channelSelections pyramidLoader = [[0, 0, 0]]"
    and py: "yIndex pyramidLoader = 1" "base pyramidLoader = plainArray"
    by (simp_all add: pyramidLoader_def base_def)
  have pnp: "\<not> isUnchunkedMultiChannel pyramidLoader"
    by (simp add: isUnchunkedMultiChannel_def py plainArray_def js_index_def)
  have psrc: "getSource pyramidLoader (Some 2) = Undef"
    by (simp add: getSource_def pd js_index_def)
  have prd: "map (readChunk (getSource pyramidLoader (Some 2))) (tileRequests pyramidLoader 0 0)
       = [Inl TypeError]"
    by (simp add: psrc tileRequests_def ps readChunk_def)
  have pt: "getTile pyramidLoader 0 0 (Some 2) = Inl TypeError"
    by (simp add: getTile_def finishTile_def prd)
  have pr: "getRaster pyramidLoader (Some 2) = Inl TypeError"
    by (simp add: getRaster_def finishRaster_def rasterRequests_def psrc ps readPlane_def)
  have cc: "ZarrLoader neverRgb anyOrder (Inl closedArray) None None None None = Inr closedLoader"
    by (simp add: ZarrLoader_def construct_def neverRgb_def closedArray_def closedLoader_def
        js_index_def)
  have cd: "data closedLoader = Single closedArray"
    and cs: "channelSelections closedLoader = [[0, 0, 0]]"
    and cy: "yIndex closedLoader = 1" "base closedLoader = closedArray"
    by (simp_all add: closedLoader_def base_def)
  have cnp: "\<not> isUnchunkedMultiChannel closedLoader"
    by (simp add: isUnchunkedMultiChannel_def cy closedArray_def js_index_def)
  have csrc: "getSource closedLoader None = Arr closedArray"
    by (simp add: getSource_def cd)
  have crd: "\<And>k. readChunk (Arr closedArray) k
                 = Inl (Raised \<lparr> instanceOf = OtherError, message = ''Not Found'' \<rparr>)"
    "\<And>k. readPlane (Arr closedArray) k
                 = Inl (Raised \<lparr> instanceOf = OtherError, message = ''Not Found'' \<rparr>)"
    by (simp_all add: readChunk_def readPlane_def closedArray_def)
  have ct: "getTile closedLoader 0 0 None
       = Inl (Raised \<lparr> instanceOf = OtherError, message = ''Not Found'' \<rparr>)"
    by (simp add: getTile_def finishTile_def tileRequests_def csrc cs crd)
  have cr: "getRaster closedLoader None
       = Inl (Raised \<lparr> instanceOf = OtherError, message = ''Not Found'' \<rparr>)"
    by (simp add: getRaster_def finishRaster_def rasterRequests_def csrc cs crd)
  from pyramidLoader_constructed pnp psrc prd pt pr cc cnp ct cr show ?thesis by simp
qed

text \<open>
  C10: a false \<^verbatim>\<open>isRgb\<close> gives the constructor the same result as no \<^verbatim>\<open>isRgb\<close>, and
  the flag of the loader is true exactly when the argument is true or the guess on the
  shape of the base array is.
\<close>

theorem isRgb_argument:
  "ZarrLoader guessRgb ensureDecreasing d dims (Some False) sc tr
     = ZarrLoader guessRgb ensureDecreasing d dims None sc tr
   \<and> (ZarrLoader guessRgb ensureDecreasing d dims rgb sc tr = Inr L
        \<longrightarrow> isRgb L = (rgb = Some True \<or> guessRgb (shape (base L))))"
proof -
  have "\<And>dt b n. construct guessRgb dt b n dims (Some False) sc tr
                  = construct guessRgb dt b n dims None sc tr"
    by (simp add: construct_def)
  then have a: "ZarrLoader guessRgb ensureDecreasing d dims (Some False) sc tr
     = ZarrLoader guessRgb ensureDecreasing d dims None sc tr"
    by (simp add: ZarrLoader_def split: sum.splits list.splits)
  have b: "ZarrLoader guessRgb ensureDecreasing d dims rgb sc tr = Inr L
        \<longrightarrow> isRgb L = (rgb = Some True \<or> guessRgb (shape (base L)))"
  proof
    assume "ZarrLoader guessRgb ensureDecreasing d dims rgb sc tr = Inr L"
    from ZarrLoader_Inr [OF this]
    have "isRgb L = (case rgb of Some True \<Rightarrow> True | Some False \<Rightarrow> guessRgb (shape (base L))
                                | None \<Rightarrow> guessRgb (shape (base L)))" by simp
    then show "isRgb L = (rgb = Some True \<or> guessRgb (shape (base L)))"
      by (simp split: option.splits bool.splits)
  qed
  from a b show ?thesis ..
qed

text \<open>
  With a guess that says interleaved, the array of three channels is taken as
  interleaved whether \<^verbatim>\<open>isRgb\<close> is false or absent.
\<close>

theorem isRgb_argument_witness:
  "ZarrLoader alwaysRgb anyOrder (Inl plainArray) (None :: unit list option) (Some False)
       None None
     = ZarrLoader alwaysRgb anyOrder (Inl plainArray) None None None None
   \<and> ZarrLoader alwaysRgb anyOrder (Inl plainArray) None (Some False) None None
       = Inr (plainLoader\<lparr> isRgb := True, xIndex := 1, yIndex := 0 \<rparr>)
   \<and> isRgb (plainLoader\<lparr> isRgb := True, xIndex := 1, yIndex := 0 \<rparr>)
       = (Some False = Some True
          \<or> alwaysRgb (shape (base (plainLoader\<lparr> isRgb := True, xIndex := 1, yIndex := 0 \<rparr>))))"
proof -
  have c: "ZarrLoader alwaysRgb anyOrder (Inl plainArray) None (Some False) None None
       = Inr (plainLoader\<lparr> isRgb := True, xIndex := 1, yIndex := 0 \<rparr>)"
    by (simp add: ZarrLoader_def construct_def alwaysRgb_def plainArray_def plainLoader_def
        js_index_def)
  note t = isRgb_argument [of alwaysRgb anyOrder "Inl plainArray" None None None "Some False"
      "plainLoader\<lparr> isRgb := True, xIndex := 1, yIndex := 0 \<rparr>"]
  from t [THEN conjunct1] c t [THEN conjunct2, THEN mp, OF c]
  show ?thesis by (intro conjI)
qed

subsection \<open>Calls that overlap\<close>

lemma decodeChannels_frame:
  "decodeChannels (L\<lparr> channelSelections := s \<rparr>) t = decodeChannels L t"
  by (simp add: decodeChannels_def)

lemma decodeIfPacked_frame:
  "decodeIfPacked (L\<lparr> channelSelections := s \<rparr>) ds = decodeIfPacked L ds"
  by (simp add: decodeIfPacked_def decodeChannels_frame split: list.splits)

lemma finishTile_frame:
  "finishTile (L\<lparr> channelSelections := s \<rparr>) sr ks = finishTile L sr ks"
  by (simp add: finishTile_def decodeIfPacked_frame split: sum.splits)

lemma finishRaster_frame:
  "finishRaster (L\<lparr> channelSelections := s \<rparr>) sr ks = finishRaster L sr ks"
  by (simp add: finishRaster_def decodeIfPacked_frame split: sum.splits source.splits)

lemma resume_frame: "resume (L\<lparr> channelSelections := s \<rparr>) c = resume L c"
  by (simp add: resume_def finishTile_frame finishRaster_frame split: request.splits)

lemma resume_issue: "resume L (issue L r) = perform L r"
  by (simp add: resume_def issue_def perform_def getTile_def getRaster_def
      split: request.splits)

lemma req_issue [simp]: "req (issue L r) = r"
  by (simp add: issue_def split: request.splits)

lemma run_snoc: "run nrm L (evs @ [e]) = step nrm (run nrm L evs) e"
  by (simp add: run_def)

lemma run_Nil: "run nrm L [] = \<lparr> current = L, inflight = [], completed = [] \<rparr>"
  by (simp add: run_def)

lemma current_frame:
  "\<exists>s. current (run nrm L evs) = L\<lparr> channelSelections := s \<rparr>"
proof (induction evs rule: rev_induct)
  case Nil
  have "L = L\<lparr> channelSelections := channelSelections L \<rparr>" by simp
  then show ?case unfolding run_Nil by (intro exI [of _ "channelSelections L"]) simp
next
  case (snoc e evs)
  then obtain s where s: "current (run nrm L evs) = L\<lparr> channelSelections := s \<rparr>" by blast
  show ?case
  proof (cases e)
    case (Call r)
    then have "current (run nrm L (evs @ [e])) = L\<lparr> channelSelections := s \<rparr>"
      using s by (simp add: run_snoc)
    then show ?thesis ..
  next
    case (Set input)
    have "snd (setChannelSelections nrm (L\<lparr> channelSelections := s \<rparr>) input)
            = L\<lparr> channelSelections := channelSelections
                  (snd (setChannelSelections nrm (L\<lparr> channelSelections := s \<rparr>) input)) \<rparr>"
      using setChannelSelections_frame [of nrm "L\<lparr> channelSelections := s \<rparr>" input] by simp
    then have "current (run nrm L (evs @ [e]))
                 = L\<lparr> channelSelections := channelSelections
                  (snd (setChannelSelections nrm (L\<lparr> channelSelections := s \<rparr>) input)) \<rparr>"
      using Set s by (simp add: run_snoc)
    then show ?thesis ..
  next
    case (Resume i)
    then have "current (run nrm L (evs @ [e])) = L\<lparr> channelSelections := s \<rparr>"
      using s by (simp add: run_snoc)
    then show ?thesis ..
  qed
qed

lemma resume_later:
  assumes "n \<le> length evs"
  shows "resume (current (run nrm L evs)) (issue (current (run nrm L (take n evs))) r)
           = perform (current (run nrm L (take n evs))) r"
proof -
  obtain s where s: "current (run nrm L evs) = L\<lparr> channelSelections := s \<rparr>"
    using current_frame by blast
  obtain s' where s': "current (run nrm L (take n evs)) = L\<lparr> channelSelections := s' \<rparr>"
    using current_frame by blast
  have "resume (L\<lparr> channelSelections := s \<rparr>) (issue (L\<lparr> channelSelections := s' \<rparr>) r)
          = resume (L\<lparr> channelSelections := s' \<rparr>) (issue (L\<lparr> channelSelections := s' \<rparr>) r)"
    by (simp add: resume_frame)
  then show ?thesis by (simp add: s s' resume_issue)
qed

text \<open>
  Whatever the steps: a read in flight has the source and the keys of the loader at the
  moment of its call, and a completed read has, on top, the outcome that a read without
  interruption has on that loader.
\<close>

lemma reads_of_a_moment:
  "(\<forall>c\<in>set (inflight (run nrm L evs)).
       \<exists>n\<le>length evs. c = issue (current (run nrm L (take n evs))) (req c))
   \<and> (\<forall>p\<in>set (completed (run nrm L evs)).
       \<exists>n\<le>length evs. fst p = issue (current (run nrm L (take n evs))) (req (fst p))
                     \<and> snd p = perform (current (run nrm L (take n evs))) (req (fst p)))"
proof (induction evs rule: rev_induct)
  case Nil
  then show ?case by (simp add: run_Nil)
next
  case (snoc e evs)
  let ?S = "run nrm L evs"
  have keep: "\<And>n. n \<le> length evs \<Longrightarrow> take n (evs @ [e]) = take n evs" by simp
  from snoc have
    fl: "\<And>c. c \<in> set (inflight ?S) \<Longrightarrow>
           \<exists>n\<le>length (evs @ [e]). c = issue (current (run nrm L (take n (evs @ [e])))) (req c)"
    and dn: "\<And>p. p \<in> set (completed ?S) \<Longrightarrow>
           \<exists>n\<le>length (evs @ [e]).
              fst p = issue (current (run nrm L (take n (evs @ [e])))) (req (fst p))
            \<and> snd p = perform (current (run nrm L (take n (evs @ [e])))) (req (fst p))"
    by (metis keep le_SucI length_append_singleton)+
  show ?case
  proof (cases e)
    case (Call r)
    have new: "\<exists>n\<le>length (evs @ [e]).
        issue (current ?S) r = issue (current (run nrm L (take n (evs @ [e])))) (req (issue (current ?S) r))"
      by (intro exI [of _ "length evs"]) simp
    show ?thesis
      using Call fl dn new by (auto simp: run_snoc)
  next
    case (Set input)
    then show ?thesis using fl dn by (auto simp: run_snoc)
  next
    case (Resume i)
    show ?thesis
    proof (cases "i < length (inflight ?S)")
      case False
      then show ?thesis using Resume fl dn by (auto simp: run_snoc)
    next
      case True
      let ?c = "inflight ?S ! i"
      from True have "?c \<in> set (inflight ?S)" by simp
      with snoc obtain n where n: "n \<le> length evs"
        and c: "?c = issue (current (run nrm L (take n evs))) (req ?c)" by blast
      have "resume (current ?S) ?c = perform (current (run nrm L (take n evs))) (req ?c)"
        using resume_later [OF n, of nrm L "req ?c"] c by simp
      with n c have new: "\<exists>n\<le>length (evs @ [e]).
          ?c = issue (current (run nrm L (take n (evs @ [e])))) (req ?c)
        \<and> resume (current ?S) ?c = perform (current (run nrm L (take n (evs @ [e])))) (req ?c)"
        by (intro exI [of _ n]) simp
      have sub: "set (take i (inflight ?S) @ drop (Suc i) (inflight ?S)) \<subseteq> set (inflight ?S)"
        by (auto dest: in_set_takeD in_set_dropD)
      show ?thesis
        using Resume True fl dn new sub by (auto simp: run_snoc)
    qed
  qed
qed

lemma foldl_reads_current:
  "\<forall>e\<in>set evs. \<not> isSet e \<Longrightarrow> current (foldl (step nrm) S evs) = current S"
proof (induction evs arbitrary: S)
  case Nil
  then show ?case by simp
next
  case (Cons e evs)
  then have "current (step nrm S e) = current S" by (cases e) auto
  with Cons show ?case by simp
qed

lemma current_one_set:
  assumes "\<forall>e\<in>set pre. \<not> isSet e" and "\<forall>e\<in>set post. \<not> isSet e"
  shows "current (run nrm L (take n (pre @ Set input # post)))
           = (if n \<le> length pre then L else snd (setChannelSelections nrm L input))"
proof (cases "n \<le> length pre")
  case True
  then have "take n (pre @ Set input # post) = take n pre" by simp
  moreover have "\<forall>e\<in>set (take n pre). \<not> isSet e"
    using assms(1) by (auto dest: in_set_takeD)
  ultimately show ?thesis using True foldl_reads_current [of "take n pre" nrm]
    by (simp add: run_def)
next
  case False
  then obtain k where k: "n = Suc (length pre + k)"
    by (metis add_Suc_right less_imp_Suc_add not_le)
  then have t: "take n (pre @ Set input # post) = pre @ Set input # take k post" by simp
  have p: "\<forall>e\<in>set (take k post). \<not> isSet e"
    using assms(2) by (auto dest: in_set_takeD)
  have "current (foldl (step nrm) \<lparr> current = L, inflight = [], completed = [] \<rparr> pre)
          = current \<lparr> current = L, inflight = [], completed = [] \<rparr>"
    using assms(1) by (rule foldl_reads_current)
  then have cp: "current (foldl (step nrm) \<lparr> current = L, inflight = [], completed = [] \<rparr> pre) = L"
    by simp
  have "run nrm L (take n (pre @ Set input # post))
          = foldl (step nrm)
              (step nrm (foldl (step nrm) \<lparr> current = L, inflight = [], completed = [] \<rparr> pre)
                 (Set input))
              (take k post)"
    by (simp only: t run_def foldl_append foldl_Cons)
  moreover have "current (foldl (step nrm)
              (step nrm (foldl (step nrm) \<lparr> current = L, inflight = [], completed = [] \<rparr> pre)
                 (Set input))
              (take k post))
          = current (step nrm (foldl (step nrm) \<lparr> current = L, inflight = [], completed = [] \<rparr> pre)
                 (Set input))"
    using p by (rule foldl_reads_current)
  ultimately have "current (run nrm L (take n (pre @ Set input # post)))
          = current (step nrm (foldl (step nrm) \<lparr> current = L, inflight = [], completed = [] \<rparr> pre)
                 (Set input))"
    by (simp only:)
  also have "\<dots> = snd (setChannelSelections nrm L input)"
    by (simp add: cp)
  finally show ?thesis using False by simp
qed

text \<open>
  C8: in an execution with one call of \<^verbatim>\<open>setChannelSelections\<close> among the steps of
  any number of reads, every read, whether it is still in flight or completed, has the
  source and the keys either of the loader before that call or of the loader after it,
  all of them from the same one; and a completed read has the outcome that a read
  without interruption has on that loader.
\<close>

theorem reads_use_old_or_new:
  assumes pre: "\<forall>e\<in>set pre. \<not> isSet e" and post: "\<forall>e\<in>set post. \<not> isSet e"
  shows "(c \<in> set (inflight (run nrm L (pre @ Set input # post))) \<longrightarrow>
            c = issue L (req c)
          \<or> c = issue (snd (setChannelSelections nrm L input)) (req c))
       \<and> ((c, out) \<in> set (completed (run nrm L (pre @ Set input # post))) \<longrightarrow>
            (c = issue L (req c) \<and> out = perform L (req c))
          \<or> (c = issue (snd (setChannelSelections nrm L input)) (req c)
              \<and> out = perform (snd (setChannelSelections nrm L input)) (req c)))"
proof (intro conjI impI)
  let ?evs = "pre @ Set input # post"
  assume "c \<in> set (inflight (run nrm L ?evs))"
  with reads_of_a_moment [of nrm L ?evs]
  obtain n where "c = issue (current (run nrm L (take n ?evs))) (req c)" by blast
  then show "c = issue L (req c) \<or> c = issue (snd (setChannelSelections nrm L input)) (req c)"
    unfolding current_one_set [OF pre post] by (cases "n \<le> length pre") simp_all
next
  let ?evs = "pre @ Set input # post"
  assume "(c, out) \<in> set (completed (run nrm L ?evs))"
  with reads_of_a_moment [of nrm L ?evs]
  obtain n where "fst (c, out) = issue (current (run nrm L (take n ?evs))) (req (fst (c, out)))
      \<and> snd (c, out) = perform (current (run nrm L (take n ?evs))) (req (fst (c, out)))"
    by blast
  then have "c = issue (current (run nrm L (take n ?evs))) (req c)"
    and "out = perform (current (run nrm L (take n ?evs))) (req c)" by simp_all
  then show "(c = issue L (req c) \<and> out = perform L (req c))
          \<or> (c = issue (snd (setChannelSelections nrm L input)) (req c)
              \<and> out = perform (snd (setChannelSelections nrm L input)) (req c))"
    unfolding current_one_set [OF pre post] by (cases "n \<le> length pre") simp_all
qed


text \<open>
  A tile read is called with the selection of zeros active, the selection of channel 2 is
  set while the read is in flight, a second tile read is called, and both complete: the
  first read has the key and the buffer of the old selection.
\<close>

theorem reads_use_old_or_new_witness:
  "(issue plainLoader (Tile 1 0 None),
     TileData (Inr [\<lparr> buffer = [0, 0, 1], byteOffset = 0, len = 3 \<rparr>]))
     \<in> set (completed (run numbersOnly plainLoader
           ([Call (Tile 1 0 None)] @ Set (One [Direct 2, Direct 0, Direct 0])
              # [Call (Tile 1 0 None), Resume 0, Resume 0])))
   \<and> keys (issue plainLoader (Tile 1 0 None)) = [[Num 0, Num 0, Num 1]]
   \<and> keys (issue (snd (setChannelSelections numbersOnly plainLoader
                          (One [Direct 2, Direct 0, Direct 0]))) (Tile 1 0 None))
       = [[Num 2, Num 0, Num 1]]
   \<and> perform plainLoader (Tile 1 0 None)
       = TileData (Inr [\<lparr> buffer = [0, 0, 1], byteOffset = 0, len = 3 \<rparr>])"
proof -
  let ?new = "plainLoader\<lparr> channelSelections := [[2, 0, 0]] \<rparr>"
  let ?old_call = "\<lparr> req = Tile 1 0 None, src = Arr plainArray, keys = [[Num 0, Num 0, Num 1]] \<rparr>"
  let ?new_call = "\<lparr> req = Tile 1 0 None, src = Arr plainArray, keys = [[Num 2, Num 0, Num 1]] \<rparr>"
  have f: "xIndex plainLoader = 2" "yIndex plainLoader = 1" "\<not> isRgb plainLoader"
    "channelSelections plainLoader = [[0, 0, 0]]" "dimensions plainLoader = None"
    "base plainLoader = plainArray" "data plainLoader = Single plainArray"
    by (simp_all add: plainLoader_def base_def)
  have np: "\<not> isUnchunkedMultiChannel plainLoader"
    by (simp add: isUnchunkedMultiChannel_def f plainArray_def js_index_def)
  have set: "setChannelSelections numbersOnly plainLoader (One [Direct 2, Direct 0, Direct 0])
               = (None, ?new)"
    by (simp add: setChannelSelections_def normalizeOne_def f np chunkViolation_def
        enumerate_eq_zip upt_rec) (simp add: plainArray_def js_index_def)
  have io: "issue plainLoader (Tile 1 0 None) = ?old_call"
    by (simp add: issue_def getSource_def tileRequests_def tileKey_def js_assign_def f)
  have inew: "issue ?new (Tile 1 0 None) = ?new_call"
    by (simp add: issue_def getSource_def tileRequests_def tileKey_def js_assign_def f)
  have e: "getRawChunk plainArray = echo" by (simp add: plainArray_def)
  have ro: "resume ?new ?old_call
              = TileData (Inr [\<lparr> buffer = [0, 0, 1], byteOffset = 0, len = 3 \<rparr>])"
    by (simp add: resume_def finishTile_frame)
       (simp add: finishTile_def readChunk_def e echo_def decodeIfPacked_def np)
  have "completed (run numbersOnly plainLoader
           ([Call (Tile 1 0 None)] @ Set (One [Direct 2, Direct 0, Direct 0])
              # [Call (Tile 1 0 None), Resume 0, Resume 0]))
          = [(?old_call, resume ?new ?old_call), (?new_call, resume ?new ?new_call)]"
    by (simp add: run_def io set inew)
  then have m: "(issue plainLoader (Tile 1 0 None),
     TileData (Inr [\<lparr> buffer = [0, 0, 1], byteOffset = 0, len = 3 \<rparr>]))
     \<in> set (completed (run numbersOnly plainLoader
           ([Call (Tile 1 0 None)] @ Set (One [Direct 2, Direct 0, Direct 0])
              # [Call (Tile 1 0 None), Resume 0, Resume 0])))"
    by (simp add: io ro)
  have pre: "\<forall>e\<in>set [Call (Tile 1 0 None) :: unit event]. \<not> isSet e" by simp
  have post: "\<forall>e\<in>set [Call (Tile 1 0 None), Resume 0, Resume 0 :: unit event]. \<not> isSet e"
    by simp
  have differ: "issue plainLoader (Tile 1 0 None)
      \<noteq> issue (snd (setChannelSelections numbersOnly plainLoader
                   (One [Direct 2, Direct 0, Direct 0]))) (req (issue plainLoader (Tile 1 0 None)))"
    by (simp add: set io inew)
  from reads_use_old_or_new [OF pre post, THEN conjunct2, THEN mp, OF m] differ
  have "TileData (Inr [\<lparr> buffer = [0, 0, 1], byteOffset = 0, len = 3 \<rparr>])
          = perform plainLoader (req (issue plainLoader (Tile 1 0 None)))"
    by blast
  then have p: "perform plainLoader (Tile 1 0 None)
       = TileData (Inr [\<lparr> buffer = [0, 0, 1], byteOffset = 0, len = 3 \<rparr>])"
    by (simp add: io)
  from m p show ?thesis by (simp add: io set inew)
qed

end
